theory Spec2Isabelle
  imports Complex_Main "HOL-Library.AList"
begin

section \<open>JSON documents as Python sees them\<close>

text \<open>
  Every record the two scripts handle comes out of \<^verbatim>\<open>json.load\<close> or
  \<^verbatim>\<open>response.json()\<close>: \<^verbatim>\<open>None\<close>, booleans, integers, floats,
  strings, lists and dictionaries with string keys. A dictionary is an association list
  read through \<open>map_of\<close> and written through \<open>AList.update\<close> (an existing key keeps
  its position, a new key goes to the end, as in a Python dict).

  Only three operations ever touch a float here (\<^verbatim>\<open>int(x)\<close>, \<^verbatim>\<open>x == n\<close> and
  truthiness), and each depends on the float's exact value alone. A finite double is a
  rational number, so \<open>Finite q\<close> stands for it; the three values that are not numbers are
  constructors of their own. A character is a code point below 256.
\<close>

datatype pyfloat = Finite rat | PosInf | NegInf | NaN

datatype json =
    JNull
  | JBool bool
  | JInt int
  | JFloat pyfloat
  | JStr string
  | JArr "json list"
  | JObj "(string \<times> json) list"

type_synonym pydict = "(string \<times> json) list"

text \<open>The exceptions that the modelled statements can raise. All of them derive from
  Python's \<^verbatim>\<open>Exception\<close>; \<open>ConnectionError\<close> (which also stands for a timeout) and
  \<open>HTTPError\<close> derive from \<^verbatim>\<open>requests.exceptions.RequestException\<close>.\<close>

datatype pyexn =
    TypeError
  | ValueError
  | KeyError
  | IndexError
  | AttributeError
  | OverflowError
  | OSError
  | ConnectionError
  | HTTPError
  | JSONDecodeError

definition is_RequestException :: "pyexn \<Rightarrow> bool" where
  "is_RequestException e = (e = ConnectionError \<or> e = HTTPError)"

definition is_Exception :: "pyexn \<Rightarrow> bool" where
  "is_Exception e = True"

subsection \<open>Dictionary and object operations\<close>

text \<open>\<^verbatim>\<open>d.get(k, default)\<close> on a dictionary.\<close>

definition dict_get :: "pydict \<Rightarrow> string \<Rightarrow> json \<Rightarrow> json" where
  "dict_get d k dflt = (case map_of d k of None \<Rightarrow> dflt | Some v \<Rightarrow> v)"

text \<open>\<^verbatim>\<open>x.get(k, default)\<close> on any JSON value: only a dictionary has the method.\<close>

fun py_get :: "json \<Rightarrow> string \<Rightarrow> json \<Rightarrow> pyexn + json" where
  "py_get (JObj d) k dflt = Inr (dict_get d k dflt)"
| "py_get _ k dflt = Inl AttributeError"

text \<open>\<^verbatim>\<open>x[k]\<close> with a string key: a missing key is a \<^verbatim>\<open>KeyError\<close>; a list or a
  string wants an integer index, and the other values are not subscriptable, which are
  all \<^verbatim>\<open>TypeError\<close>.\<close>

fun py_getitem :: "json \<Rightarrow> string \<Rightarrow> pyexn + json" where
  "py_getitem (JObj d) k = (case map_of d k of None \<Rightarrow> Inl KeyError | Some v \<Rightarrow> Inr v)"
| "py_getitem _ k = Inl TypeError"

text \<open>\<^verbatim>\<open>for x in v\<close>: a list yields its elements, a dictionary its keys, a string its
  characters; nothing else is iterable.\<close>

fun py_iter :: "json \<Rightarrow> pyexn + json list" where
  "py_iter (JArr xs) = Inr xs"
| "py_iter (JObj d) = Inr (map (\<lambda>kv. JStr (fst kv)) d)"
| "py_iter (JStr s) = Inr (map (\<lambda>c. JStr [c]) s)"
| "py_iter _ = Inl TypeError"

text \<open>Truthiness (\<^verbatim>\<open>if x:\<close>).\<close>

fun py_truthy :: "json \<Rightarrow> bool" where
  "py_truthy JNull = False"
| "py_truthy (JBool b) = b"
| "py_truthy (JInt n) = (n \<noteq> 0)"
| "py_truthy (JFloat (Finite q)) = (q \<noteq> 0)"
| "py_truthy (JFloat _) = True"
| "py_truthy (JStr s) = (s \<noteq> [])"
| "py_truthy (JArr xs) = (xs \<noteq> [])"
| "py_truthy (JObj d) = (d \<noteq> [])"

text \<open>\<^verbatim>\<open>x == n\<close> for an integer \<open>n\<close>: numbers compare by value, and
  \<^verbatim>\<open>True == 1\<close>, \<^verbatim>\<open>False == 0\<close>.\<close>

fun py_eq_int :: "json \<Rightarrow> int \<Rightarrow> bool" where
  "py_eq_int (JInt m) n = (m = n)"
| "py_eq_int (JBool b) n = ((if b then 1 else 0) = n)"
| "py_eq_int (JFloat (Finite q)) n = (q = of_int n)"
| "py_eq_int _ n = False"

subsection \<open>The builtin \<^verbatim>\<open>int\<close>\<close>

text \<open>
  \<^verbatim>\<open>int(s)\<close> for a string: surrounding whitespace is dropped (tab to carriage
  return, space, and of the code points from 128 the two that are whitespace, 133 and
  160; the separators 28 to 31 are not dropped), one sign is allowed, and the rest must
  be decimal digits, with single underscores allowed between digits.
  More than 4300 digits are refused (the interpreter's default limit). Every refusal is
  a \<^verbatim>\<open>ValueError\<close>.
\<close>

definition is_space :: "char \<Rightarrow> bool" where
  "is_space c = (of_char c \<in> {9, 10, 11, 12, 13, 32, 133, 160 :: nat})"

definition is_digit :: "char \<Rightarrow> bool" where
  "is_digit c = (48 \<le> (of_char c :: nat) \<and> (of_char c :: nat) \<le> 57)"

definition digit_val :: "char \<Rightarrow> int" where
  "digit_val c = int (of_char c) - 48"

definition strip :: "string \<Rightarrow> string" where
  "strip s = rev (dropWhile is_space (rev (dropWhile is_space s)))"

fun digits_ok :: "string \<Rightarrow> bool" where
  "digits_ok [] = False"
| "digits_ok [c] = is_digit c"
| "digits_ok (c # d # cs) =
     ((is_digit c \<and> digits_ok (d # cs)) \<or>
      (c = CHR ''_'' \<and> is_digit d \<and> digits_ok (d # cs)))"

definition int_literal :: "string \<Rightarrow> bool" where
  "int_literal b = (b \<noteq> [] \<and> is_digit (hd b) \<and> digits_ok b
      \<and> length (filter is_digit b) \<le> 4300)"

definition digits_value :: "string \<Rightarrow> int" where
  "digits_value b = foldl (\<lambda>a c. 10 * a + digit_val c) 0 (filter is_digit b)"

definition int_of_str :: "string \<Rightarrow> pyexn + int" where
  "int_of_str s =
     (let t = strip s;
          neg = (t \<noteq> [] \<and> hd t = CHR ''-'');
          b = (if t \<noteq> [] \<and> (hd t = CHR ''-'' \<or> hd t = CHR ''+'') then tl t else t)
      in if int_literal b then Inr (if neg then - digits_value b else digits_value b)
         else Inl ValueError)"

text \<open>\<^verbatim>\<open>int(x)\<close> for a JSON value. A float is truncated towards zero; infinity is an
  \<^verbatim>\<open>OverflowError\<close> and not-a-number a \<^verbatim>\<open>ValueError\<close>; \<^verbatim>\<open>None\<close>, lists and
  dictionaries are a \<^verbatim>\<open>TypeError\<close>.\<close>

fun py_int :: "json \<Rightarrow> pyexn + int" where
  "py_int (JInt n) = Inr n"
| "py_int (JBool b) = Inr (if b then 1 else 0)"
| "py_int (JStr s) = int_of_str s"
| "py_int (JFloat (Finite q)) = Inr (if 0 \<le> q then \<lfloor>q\<rfloor> else \<lceil>q\<rceil>)"
| "py_int (JFloat NaN) = Inl ValueError"
| "py_int (JFloat _) = Inl OverflowError"
| "py_int _ = Inl TypeError"

section \<open>Identifier extraction: \<^verbatim>\<open>find_steam_app_id\<close>\<close>

text \<open>
  The enrichment script reads the source name with
  \<^verbatim>\<open>external_game.get('external_game_source')['name']\<close>; the retry script with
  \<^verbatim>\<open>external_game.get('external_game_source', {}).get('name')\<close>. The conversion
  \<^verbatim>\<open>int(external_game.get('uid', 0))\<close> stands in a \<^verbatim>\<open>try\<close> whose handler catches
  \<^verbatim>\<open>ValueError\<close> and \<^verbatim>\<open>TypeError\<close> and continues with the next entry.
\<close>

definition source_name :: "json \<Rightarrow> pyexn + json" where
  "source_name external_game =
     (case py_get external_game ''external_game_source'' JNull of
        Inl e \<Rightarrow> Inl e
      | Inr src \<Rightarrow> py_getitem src ''name'')"

definition source_name_retry :: "json \<Rightarrow> pyexn + json" where
  "source_name_retry external_game =
     (case py_get external_game ''external_game_source'' (JObj []) of
        Inl e \<Rightarrow> Inl e
      | Inr src \<Rightarrow> py_get src ''name'' JNull)"

definition uid_int :: "json \<Rightarrow> pyexn + int" where
  "uid_int external_game =
     (case py_get external_game ''uid'' (JInt 0) of
        Inl e \<Rightarrow> Inl e
      | Inr u \<Rightarrow> py_int u)"

fun scan_external_games :: "(json \<Rightarrow> pyexn + json) \<Rightarrow> json list \<Rightarrow> pyexn + int option" where
  "scan_external_games name_of [] = Inr None"
| "scan_external_games name_of (external_game # rest) =
     (case name_of external_game of
        Inl e \<Rightarrow> Inl e
      | Inr nm \<Rightarrow>
          if nm = JStr ''Steam'' then
            (case uid_int external_game of
               Inr n \<Rightarrow> Inr (Some n)
             | Inl e \<Rightarrow>
                 if e = ValueError \<or> e = TypeError then scan_external_games name_of rest
                 else Inl e)
          else scan_external_games name_of rest)"

definition find_steam_app_id :: "pydict \<Rightarrow> pyexn + int option" where
  "find_steam_app_id igdb_game =
     (case py_iter (dict_get igdb_game ''external_games'' (JArr [])) of
        Inl e \<Rightarrow> Inl e
      | Inr external_games \<Rightarrow> scan_external_games source_name external_games)"

definition find_steam_app_id_retry :: "pydict \<Rightarrow> pyexn + int option" where
  "find_steam_app_id_retry igdb_game =
     (case py_iter (dict_get igdb_game ''external_games'' (JArr [])) of
        Inl e \<Rightarrow> Inl e
      | Inr external_games \<Rightarrow> scan_external_games source_name_retry external_games)"

section \<open>The fetcher: \<^verbatim>\<open>get_steamspy_data\<close>\<close>

text \<open>
  What \<^verbatim>\<open>requests.get(STEAMSPY_BASE_URL, params=params, timeout=10)\<close> can come
  back with: no response at all (the call raises a \<^verbatim>\<open>RequestException\<close>: connection
  error, timeout), or a response with a status code and a body that
  \<^verbatim>\<open>response.json()\<close> either parses or refuses.
  \<^verbatim>\<open>response.raise_for_status()\<close> raises \<^verbatim>\<open>HTTPError\<close> for the status codes
  400 to 599 and for no other.
\<close>

datatype http_body = NotJSON | Body json

datatype http_outcome = NoResponse | Response nat http_body

text \<open>The statements inside the \<^verbatim>\<open>try\<close>, the same in both scripts.\<close>

definition steamspy_request :: "http_outcome \<Rightarrow> int \<Rightarrow> pyexn + json option" where
  "steamspy_request outcome app_id =
     (case outcome of
        NoResponse \<Rightarrow> Inl ConnectionError
      | Response status body \<Rightarrow>
          if 400 \<le> status \<and> status < 600 then Inl HTTPError
          else
            (case body of
               NotJSON \<Rightarrow> Inl JSONDecodeError
             | Body data \<Rightarrow>
                 if py_truthy data then
                   (case py_get data ''appid'' JNull of
                      Inl e \<Rightarrow> Inl e
                    | Inr v \<Rightarrow> if py_eq_int v app_id then Inr (Some data) else Inr None)
                 else Inr None))"

text \<open>The enrichment script has three handlers, in this order:
  \<^verbatim>\<open>RequestException\<close>, \<^verbatim>\<open>json.JSONDecodeError\<close>, \<^verbatim>\<open>Exception\<close>; each returns
  \<^verbatim>\<open>None\<close>. The retry script has the single handler \<^verbatim>\<open>Exception\<close>.\<close>

definition get_steamspy_data :: "http_outcome \<Rightarrow> int \<Rightarrow> pyexn + json option" where
  "get_steamspy_data outcome app_id =
     (case steamspy_request outcome app_id of
        Inr r \<Rightarrow> Inr r
      | Inl e \<Rightarrow>
          if is_RequestException e then Inr None
          else if e = JSONDecodeError then Inr None
          else if is_Exception e then Inr None
          else Inl e)"

definition get_steamspy_data_retry :: "http_outcome \<Rightarrow> int \<Rightarrow> pyexn + json option" where
  "get_steamspy_data_retry outcome app_id =
     (case steamspy_request outcome app_id of
        Inr r \<Rightarrow> Inr r
      | Inl e \<Rightarrow> if is_Exception e then Inr None else Inl e)"

text \<open>\<^verbatim>\<open>if steamspy_data:\<close> in both drivers: the payload when it is there and
  truthy, \<open>None\<close> for the \<^verbatim>\<open>else\<close> branch.\<close>

fun truthy_payload :: "json option \<Rightarrow> json option" where
  "truthy_payload None = None"
| "truthy_payload (Some data) = (if py_truthy data then Some data else None)"

section \<open>Effects\<close>

text \<open>
  The network is an oracle: \<open>net i x\<close> is the outcome of the request made for identifier
  \<open>x\<close> while the loop is at position \<open>i\<close> of its input (both loops run over
  \<^verbatim>\<open>enumerate(...)\<close> and make at most one request per position, so any sequence of
  outcomes is such an oracle; two requests for the same identifier may differ).
  What a run does to the outside world is recorded as a list of events, in order: a call
  of the fetcher and the pacing delay with the loop position, and each document written.
\<close>

type_synonym network = "nat \<Rightarrow> int \<Rightarrow> http_outcome"

datatype event =
    Fetch nat int
  | Sleep nat
  | WriteFailedIds "int list"
  | WriteGames "pydict list"

section \<open>The enrichment driver: \<^verbatim>\<open>enrich_igdb_with_steam_data\<close>\<close>

record enrich_state =
  enriched_games :: "pydict list"
  failed_steam_ids :: "int list"
  steam_enriched_count :: nat
  events :: "event list"

definition enrich_init :: enrich_state where
  "enrich_init = \<lparr>enriched_games = [], failed_steam_ids = [], steam_enriched_count = 0,
     events = []\<rparr>"

text \<open>One pass of the loop body, for the record \<open>igdb_game\<close> at position \<open>i\<close>.
  \<^verbatim>\<open>if steam_app_id and steam_app_id in steam_apps_dict\<close> is false for \<^verbatim>\<open>None\<close> and
  for \<open>0\<close>.\<close>

definition enrich_game ::
  "network \<Rightarrow> (int \<rightharpoonup> json) \<Rightarrow> nat \<Rightarrow> pydict \<Rightarrow> enrich_state \<Rightarrow> pyexn + enrich_state" where
  "enrich_game net steam_apps_dict i igdb_game st =
     (case find_steam_app_id igdb_game of
        Inl e \<Rightarrow> Inl e
      | Inr found \<Rightarrow>
          (case found of
             None \<Rightarrow> Inr (st\<lparr>enriched_games := enriched_games st @ [igdb_game]\<rparr>)
           | Some steam_app_id \<Rightarrow>
               if steam_app_id \<noteq> 0 \<and> steam_apps_dict steam_app_id \<noteq> None then
                 (case get_steamspy_data (net i steam_app_id) steam_app_id of
                    Inl e \<Rightarrow> Inl e
                  | Inr steamspy_data \<Rightarrow>
                      (case truthy_payload steamspy_data of
                         Some data \<Rightarrow>
                           Inr (st\<lparr>enriched_games := enriched_games st @
                                    [AList.update ''steamInfo'' data igdb_game],
                                  steam_enriched_count := Suc (steam_enriched_count st),
                                  events := events st @ [Fetch i steam_app_id, Sleep i]\<rparr>)
                       | None \<Rightarrow>
                           Inr (st\<lparr>enriched_games := enriched_games st @ [igdb_game],
                                  failed_steam_ids := failed_steam_ids st @ [steam_app_id],
                                  events := events st @ [Fetch i steam_app_id, Sleep i]\<rparr>)))
               else Inr (st\<lparr>enriched_games := enriched_games st @ [igdb_game]\<rparr>)))"

fun enrich_loop ::
  "network \<Rightarrow> (int \<rightharpoonup> json) \<Rightarrow> nat \<Rightarrow> pydict list \<Rightarrow> enrich_state \<Rightarrow> pyexn + enrich_state" where
  "enrich_loop net steam_apps_dict i [] st = Inr st"
| "enrich_loop net steam_apps_dict i (igdb_game # rest) st =
     (case enrich_game net steam_apps_dict i igdb_game st of
        Inl e \<Rightarrow> Inl e
      | Inr st' \<Rightarrow> enrich_loop net steam_apps_dict (Suc i) rest st')"

text \<open>After the loop the failure list is written to
  \<^verbatim>\<open>failed_steamspy_fetches.json\<close> when it is not empty; \<open>can_write\<close> tells whether
  that file can be opened for writing (the \<^verbatim>\<open>open\<close> is in no \<^verbatim>\<open>try\<close>). The
  function returns the enriched records; the model also returns the events of the run.\<close>

definition enrich_igdb_with_steam_data ::
  "network \<Rightarrow> bool \<Rightarrow> pydict list \<Rightarrow> (int \<rightharpoonup> json) \<Rightarrow> pyexn + (pydict list \<times> event list)" where
  "enrich_igdb_with_steam_data net can_write igdb_games steam_apps_dict =
     (case enrich_loop net steam_apps_dict 0 igdb_games enrich_init of
        Inl e \<Rightarrow> Inl e
      | Inr st \<Rightarrow>
          if failed_steam_ids st \<noteq> [] then
            (if can_write then
               Inr (enriched_games st, events st @ [WriteFailedIds (failed_steam_ids st)])
             else Inl OSError)
          else Inr (enriched_games st, events st))"

section \<open>The retry driver: \<^verbatim>\<open>retry_failed_fetches\<close>\<close>

text \<open>The first loop builds \<^verbatim>\<open>steam_id_to_game_index\<close>; \<^verbatim>\<open>if steam_app_id:\<close> leaves
  out \<^verbatim>\<open>None\<close> and \<open>0\<close>, and a later record with the same identifier replaces an
  earlier one.\<close>

fun build_index :: "nat \<Rightarrow> pydict list \<Rightarrow> (int \<rightharpoonup> nat) \<Rightarrow> pyexn + (int \<rightharpoonup> nat)" where
  "build_index i [] m = Inr m"
| "build_index i (game # rest) m =
     (case find_steam_app_id_retry game of
        Inl e \<Rightarrow> Inl e
      | Inr found \<Rightarrow>
          (case found of
             None \<Rightarrow> build_index (Suc i) rest m
           | Some steam_app_id \<Rightarrow>
               if steam_app_id \<noteq> 0 then build_index (Suc i) rest (m(steam_app_id \<mapsto> i))
               else build_index (Suc i) rest m))"

record retry_state =
  games :: "pydict list"
  still_failed :: "int list"
  success_count :: nat
  retry_events :: "event list"

text \<open>One pass of the second loop, for the identifier at position \<open>j\<close> of the failure
  list. \<^verbatim>\<open>enriched_games[game_index]['steamInfo'] = steamspy_data\<close> changes the list
  that was passed in; an index outside the list would be an \<^verbatim>\<open>IndexError\<close>.\<close>

definition retry_id ::
  "network \<Rightarrow> (int \<rightharpoonup> nat) \<Rightarrow> nat \<Rightarrow> int \<Rightarrow> retry_state \<Rightarrow> pyexn + retry_state" where
  "retry_id net steam_id_to_game_index j steam_app_id st =
     (case steam_id_to_game_index steam_app_id of
        None \<Rightarrow> Inr (st\<lparr>still_failed := still_failed st @ [steam_app_id]\<rparr>)
      | Some game_index \<Rightarrow>
          (case get_steamspy_data_retry (net j steam_app_id) steam_app_id of
             Inl e \<Rightarrow> Inl e
           | Inr steamspy_data \<Rightarrow>
               (case truthy_payload steamspy_data of
                  Some data \<Rightarrow>
                    if game_index < length (games st) then
                      Inr (st\<lparr>games := (games st)[game_index :=
                                   AList.update ''steamInfo'' data (games st ! game_index)],
                             success_count := Suc (success_count st),
                             retry_events := retry_events st @ [Fetch j steam_app_id, Sleep j]\<rparr>)
                    else Inl IndexError
                | None \<Rightarrow>
                    Inr (st\<lparr>still_failed := still_failed st @ [steam_app_id],
                           retry_events := retry_events st @ [Fetch j steam_app_id, Sleep j]\<rparr>))))"

fun retry_loop ::
  "network \<Rightarrow> (int \<rightharpoonup> nat) \<Rightarrow> nat \<Rightarrow> int list \<Rightarrow> retry_state \<Rightarrow> pyexn + retry_state" where
  "retry_loop net steam_id_to_game_index j [] st = Inr st"
| "retry_loop net steam_id_to_game_index j (steam_app_id # rest) st =
     (case retry_id net steam_id_to_game_index j steam_app_id st of
        Inl e \<Rightarrow> Inl e
      | Inr st' \<Rightarrow> retry_loop net steam_id_to_game_index (Suc j) rest st')"

definition retry_failed_fetches ::
  "network \<Rightarrow> int list \<Rightarrow> pydict list \<Rightarrow> pyexn + retry_state" where
  "retry_failed_fetches net failed_ids enriched =
     (case build_index 0 enriched Map.empty of
        Inl e \<Rightarrow> Inl e
      | Inr steam_id_to_game_index \<Rightarrow>
          retry_loop net steam_id_to_game_index 0 failed_ids
            \<lparr>games = enriched, still_failed = [], success_count = 0, retry_events = []\<rparr>)"

text \<open>
  \<^verbatim>\<open>main\<close> of the retry script. A document that cannot be loaded counts as the empty
  list (\<open>None\<close> here); an empty failure list or an empty dataset ends the run before
  anything is done. After the retry both documents are saved, each by a function that
  catches and logs a failure to write: \<open>writable_games\<close> and \<open>writable_failed\<close> tell
  whether the file can be written. The result is the list of events of the run.
\<close>

definition retry_main ::
  "network \<Rightarrow> bool \<Rightarrow> bool \<Rightarrow> int list option \<Rightarrow> pydict list option \<Rightarrow> pyexn + event list" where
  "retry_main net writable_games writable_failed failed_doc enriched_doc =
     (let failed_ids = (case failed_doc of None \<Rightarrow> [] | Some ids \<Rightarrow> ids) in
      if failed_ids = [] then Inr []
      else
        let enriched = (case enriched_doc of None \<Rightarrow> [] | Some gs \<Rightarrow> gs) in
        if enriched = [] then Inr []
        else
          (case retry_failed_fetches net failed_ids enriched of
             Inl e \<Rightarrow> Inl e
           | Inr st \<Rightarrow>
               Inr (retry_events st
                    @ (if writable_games then [WriteGames (games st)] else [])
                    @ (if writable_failed then [WriteFailedIds (still_failed st)] else []))))"

section \<open>Notions used in the statements\<close>

text \<open>An entry that the scan passes over: its source name is read without an error, and
  either the name is not \<^verbatim>\<open>'Steam'\<close> or the conversion of its \<^verbatim>\<open>uid\<close> raises one of the
  two exceptions the handler catches.\<close>

definition skipped :: "(json \<Rightarrow> pyexn + json) \<Rightarrow> json \<Rightarrow> bool" where
  "skipped name_of x =
     (case name_of x of
        Inl e \<Rightarrow> False
      | Inr nm \<Rightarrow> nm \<noteq> JStr ''Steam'' \<or> uid_int x = Inl ValueError \<or> uid_int x = Inl TypeError)"

text \<open>An event that belongs to position \<open>k\<close> of the loop.\<close>

fun at_position :: "nat \<Rightarrow> event \<Rightarrow> bool" where
  "at_position k (Fetch j x) = (j = k)"
| "at_position k (Sleep j) = (j = k)"
| "at_position k (WriteFailedIds ids) = False"
| "at_position k (WriteGames gs) = False"

text \<open>A cross-reference entry of the shape \<^verbatim>\<open>{"external_game_source": {"name": n}, "uid": u}\<close>,
  for the concrete records of the examples.\<close>

definition entry :: "string \<Rightarrow> json \<Rightarrow> json" where
  "entry n u = JObj [(''external_game_source'', JObj [(''name'', JStr n)]), (''uid'', u)]"

definition game :: "json list \<Rightarrow> pydict" where
  "game xs = [(''external_games'', JArr xs)]"

definition game_440 :: pydict where
  "game_440 = game [entry ''Steam'' (JStr ''440'')]"

definition game_570 :: pydict where
  "game_570 = game [entry ''Steam'' (JStr ''570'')]"

text \<open>Three networks: one that never answers, one that answers every request with a
  payload echoing the identifier, and one that answers only the request made at loop
  position 0.\<close>

definition net_down :: network where
  "net_down i x = NoResponse"

definition payload :: "int \<Rightarrow> json" where
  "payload x = JObj [(''appid'', JInt x), (''owners'', JStr ''1,000,000'')]"

definition net_echo :: network where
  "net_echo i x = Response 200 (Body (payload x))"

definition net_first :: network where
  "net_first i x = (if i = 0 then Response 200 (Body (payload x)) else NoResponse)"

definition known_440 :: "int \<rightharpoonup> json" where
  "known_440 = [440 \<mapsto> JObj [(''appid'', JInt 440), (''name'', JStr ''Team Fortress 2'')]]"

text \<open>An entry whose source name is read without an error and is not \<^verbatim>\<open>'Steam'\<close>.\<close>

definition other_source :: "(json \<Rightarrow> pyexn + json) \<Rightarrow> json \<Rightarrow> bool" where
  "other_source name_of y =
     (case name_of y of Inl e \<Rightarrow> False | Inr nm \<Rightarrow> nm \<noteq> JStr ''Steam'')"

text \<open>More concrete records: a record that already carries a \<^verbatim>\<open>steamInfo\<close> field, and a
  record whose first \<^verbatim>\<open>Steam\<close> entry has no \<^verbatim>\<open>uid\<close> field.\<close>

definition old_info :: json where
  "old_info = JObj [(''appid'', JInt 440), (''owners'', JStr ''0'')]"

definition enriched_440 :: pydict where
  "enriched_440 = AList.update ''steamInfo'' old_info game_440"

definition source_only :: json where
  "source_only = JObj [(''external_game_source'', JObj [(''name'', JStr ''Steam'')])]"

definition game_nouid :: pydict where
  "game_nouid = game [entry ''GOG'' (JStr ''7''), source_only, entry ''Steam'' (JStr ''440'')]"

definition known_zero :: "int \<rightharpoonup> json" where
  "known_zero = [0 \<mapsto> JObj [], 440 \<mapsto> JObj []]"

section \<open>The fetcher never raises\<close>

lemma get_steamspy_data_total: "\<exists>r. get_steamspy_data outcome x = Inr r"
  by (simp add: get_steamspy_data_def is_Exception_def split: sum.splits)

lemma steamspy_request_truthy: "steamspy_request outcome x = Inr (Some p) \<Longrightarrow> py_truthy p"
  by (auto simp: steamspy_request_def split: http_outcome.splits http_body.splits if_splits sum.splits)

lemma get_steamspy_data_truthy: "get_steamspy_data outcome x = Inr (Some p) \<Longrightarrow> py_truthy p"
  using steamspy_request_truthy[of outcome x p]
  by (auto simp: get_steamspy_data_def split: sum.splits if_splits)

lemma get_steamspy_data_retry_eq: "get_steamspy_data_retry outcome x = get_steamspy_data outcome x"
  by (simp add: get_steamspy_data_retry_def get_steamspy_data_def is_Exception_def split: sum.splits)

lemma get_steamspy_data_retry_cases:
  "get_steamspy_data_retry outcome x = Inr None \<or>
   (\<exists>p. get_steamspy_data_retry outcome x = Inr (Some p) \<and> py_truthy p)"
  using get_steamspy_data_total[of outcome x] get_steamspy_data_truthy[of outcome x]
  by (cases "get_steamspy_data outcome x") (auto simp: get_steamspy_data_retry_eq)

lemma steamspy_request_Some:
  "steamspy_request outcome x = Inr (Some p) \<longleftrightarrow>
     (\<exists>s d v. outcome = Response s (Body (JObj d)) \<and> (s < 400 \<or> 600 \<le> s) \<and> p = JObj d
        \<and> map_of d ''appid'' = Some v \<and> py_eq_int v x)"
  apply (cases outcome)
   apply (simp add: steamspy_request_def)
  subgoal for s b
    apply (cases b)
     apply (simp add: steamspy_request_def)
    subgoal for data
      apply (cases data)
      apply (auto simp: steamspy_request_def dict_get_def split: option.splits)
      done
    done
  done

section \<open>The concrete records and networks, evaluated\<close>

lemmas int_defs = int_of_str_def strip_def is_space_def int_literal_def is_digit_def
  digits_value_def digit_val_def

lemma int_440: "int_of_str ''440'' = Inr 440"
  by (simp add: int_defs)

lemma int_570: "int_of_str ''570'' = Inr 570"
  by (simp add: int_defs)

lemmas find_defs = find_steam_app_id_def find_steam_app_id_retry_def dict_get_def
  source_name_def source_name_retry_def uid_int_def entry_def game_def int_440 int_570

lemmas fetch_defs = get_steamspy_data_def get_steamspy_data_retry_def steamspy_request_def
  is_RequestException_def is_Exception_def net_down_def net_echo_def net_first_def payload_def
  dict_get_def

lemma find_440: "find_steam_app_id game_440 = Inr (Some 440)"
  by (simp add: game_440_def find_defs)

lemma find_570: "find_steam_app_id game_570 = Inr (Some 570)"
  by (simp add: game_570_def find_defs)

lemma find_retry_440: "find_steam_app_id_retry game_440 = Inr (Some 440)"
  by (simp add: game_440_def find_defs)

lemma find_retry_570: "find_steam_app_id_retry game_570 = Inr (Some 570)"
  by (simp add: game_570_def find_defs)

lemma fetch_down: "get_steamspy_data (net_down i x) x = Inr None"
  by (simp add: fetch_defs)

lemma fetch_echo: "get_steamspy_data (net_echo i x) x = Inr (Some (payload x))"
  by (simp add: fetch_defs)

lemma payload_truthy: "py_truthy (payload x)"
  by (simp add: payload_def)

lemmas enrich_defs = enrich_igdb_with_steam_data_def enrich_init_def enrich_game_def
  find_440 find_570 fetch_down fetch_echo payload_truthy known_440_def

lemma fetch_retry_down: "get_steamspy_data_retry (net_down i x) x = Inr None"
  by (simp add: fetch_defs)

lemma fetch_retry_echo: "get_steamspy_data_retry (net_echo i x) x = Inr (Some (payload x))"
  by (simp add: fetch_defs)

lemma fetch_retry_first:
  "get_steamspy_data_retry (net_first i x) x = (if i = 0 then Inr (Some (payload x)) else Inr None)"
  by (simp add: fetch_defs)

lemma find_retry_enriched_440: "find_steam_app_id_retry enriched_440 = Inr (Some 440)"
  by (simp add: enriched_440_def game_440_def find_defs)

lemma find_nouid: "find_steam_app_id game_nouid = Inr (Some 0)"
  by (simp add: game_nouid_def source_only_def find_defs)

lemma find_retry_nouid: "find_steam_app_id_retry game_nouid = Inr (Some 0)"
  by (simp add: game_nouid_def source_only_def find_defs)

lemmas retry_defs = retry_failed_fetches_def retry_id_def retry_main_def
  find_retry_440 find_retry_570 find_retry_enriched_440 find_retry_nouid
  fetch_retry_down fetch_retry_echo fetch_retry_first payload_truthy

section \<open>The scan of the cross-reference list\<close>

lemma scan_skipped:
  "skipped name_of x \<Longrightarrow> scan_external_games name_of (x # rest) = scan_external_games name_of rest"
  by (auto simp: skipped_def split: sum.splits)

lemma scan_first_match:
  assumes "list_all (skipped name_of) pre"
    and "name_of x = Inr (JStr ''Steam'')" and "uid_int x = Inr n"
  shows "scan_external_games name_of (pre @ x # post) = Inr (Some n)"
  using assms by (induction pre) (simp_all add: scan_skipped del: scan_external_games.simps(2), simp)

lemma scan_no_match:
  "list_all (skipped name_of) xs \<Longrightarrow> scan_external_games name_of xs = Inr None"
  by (induction xs) (simp_all add: scan_skipped del: scan_external_games.simps(2))

lemma scan_result:
  "scan_external_games name_of xs = Inr (Some n) \<Longrightarrow>
     \<exists>pre x post. xs = pre @ x # post \<and> list_all (skipped name_of) pre
        \<and> name_of x = Inr (JStr ''Steam'') \<and> uid_int x = Inr n"
proof (induction xs)
  case Nil
  then show ?case by simp
next
  case (Cons a xs)
  show ?case
  proof (cases "skipped name_of a")
    case True
    with Cons.prems have "scan_external_games name_of xs = Inr (Some n)"
      by (simp add: scan_skipped del: scan_external_games.simps(2))
    from Cons.IH[OF this] obtain pre x post where
      "xs = pre @ x # post" "list_all (skipped name_of) pre"
      "name_of x = Inr (JStr ''Steam'')" "uid_int x = Inr n" by blast
    with True have "a # xs = (a # pre) @ x # post \<and> list_all (skipped name_of) (a # pre)
        \<and> name_of x = Inr (JStr ''Steam'') \<and> uid_int x = Inr n" by simp
    then show ?thesis by blast
  next
    case False
    with Cons.prems have "name_of a = Inr (JStr ''Steam'') \<and> uid_int a = Inr n"
      by (auto simp: skipped_def split: sum.splits if_splits)
    then have "a # xs = [] @ a # xs \<and> list_all (skipped name_of) []
        \<and> name_of a = Inr (JStr ''Steam'') \<and> uid_int a = Inr n" by simp
    then show ?thesis by blast
  qed
qed

lemma uid_int_missing: "map_of e ''uid'' = None \<Longrightarrow> uid_int (JObj e) = Inr 0"
  by (simp add: uid_int_def dict_get_def)

lemma skipped_no_match:
  "name_of y = Inr nm \<Longrightarrow> nm \<noteq> JStr ''Steam'' \<Longrightarrow> skipped name_of y"
  by (simp add: skipped_def)

lemma other_source_skipped: "other_source name_of y \<Longrightarrow> skipped name_of y"
  by (auto simp: other_source_def skipped_def split: sum.splits)

lemma scan_missing_uid:
  assumes "list_all (other_source name_of) pre"
    and "name_of (JObj e) = Inr (JStr ''Steam'')" and "map_of e ''uid'' = None"
  shows "scan_external_games name_of (pre @ JObj e # post) = Inr (Some 0)"
proof -
  have "list_all (skipped name_of) pre"
    using assms(1) other_source_skipped by (auto simp: list_all_iff)
  from scan_first_match[OF this assms(2) uid_int_missing[OF assms(3)]] show ?thesis .
qed

section \<open>The enrichment loop\<close>

lemma enrich_loop_append:
  "enrich_loop net idx i (xs @ ys) st =
     (case enrich_loop net idx i xs st of
        Inl e \<Rightarrow> Inl e
      | Inr s \<Rightarrow> enrich_loop net idx (i + length xs) ys s)"
  by (induction xs arbitrary: i st) (auto split: sum.splits)

text \<open>The three shapes of one pass of the loop body.\<close>

lemma enrich_game_pass:
  assumes "find_steam_app_id g = Inr found"
    and "found = None \<or> found = Some 0 \<or> (\<exists>x. found = Some x \<and> idx x = None)"
  shows "enrich_game net idx i g st = Inr (st\<lparr>enriched_games := enriched_games st @ [g]\<rparr>)"
  using assms by (auto simp: enrich_game_def)

lemma enrich_game_fail:
  assumes "find_steam_app_id g = Inr (Some x)" and "x \<noteq> 0" and "idx x \<noteq> None"
    and "get_steamspy_data (net i x) x = Inr None"
  shows "enrich_game net idx i g st =
     Inr (st\<lparr>enriched_games := enriched_games st @ [g],
            failed_steam_ids := failed_steam_ids st @ [x],
            events := events st @ [Fetch i x, Sleep i]\<rparr>)"
  using assms by (auto simp: enrich_game_def)

lemma enrich_game_success:
  assumes "find_steam_app_id g = Inr (Some x)" and "x \<noteq> 0" and "idx x \<noteq> None"
    and "get_steamspy_data (net i x) x = Inr (Some p)"
  shows "enrich_game net idx i g st =
     Inr (st\<lparr>enriched_games := enriched_games st @ [AList.update ''steamInfo'' p g],
            steam_enriched_count := Suc (steam_enriched_count st),
            events := events st @ [Fetch i x, Sleep i]\<rparr>)"
  using assms get_steamspy_data_truthy[of "net i x" x p] by (auto simp: enrich_game_def)

lemma enrich_game_grows:
  assumes "enrich_game net idx i g st = Inr st1"
  shows "\<exists>g' fs es. enriched_games st1 = enriched_games st @ [g']
      \<and> failed_steam_ids st1 = failed_steam_ids st @ fs
      \<and> events st1 = events st @ es \<and> list_all (at_position i) es
      \<and> (es = [] \<or> (\<exists>x. es = [Fetch i x, Sleep i] \<and> find_steam_app_id g = Inr (Some x)
             \<and> x \<noteq> 0 \<and> idx x \<noteq> None))"
  using assms
  by (auto simp: enrich_game_def split: sum.splits option.splits if_splits)

lemma enrich_loop_grows:
  "enrich_loop net idx i recs st = Inr st' \<Longrightarrow>
     \<exists>out fs es. enriched_games st' = enriched_games st @ out \<and> length out = length recs
       \<and> failed_steam_ids st' = failed_steam_ids st @ fs
       \<and> events st' = events st @ es
       \<and> list_all (\<lambda>e. \<exists>k. at_position k e \<and> i \<le> k \<and> k < i + length recs) es"
proof (induction recs arbitrary: i st)
  case Nil
  then show ?case by simp
next
  case (Cons g rest)
  from Cons.prems obtain st1 where
    s1: "enrich_game net idx i g st = Inr st1" and
    l: "enrich_loop net idx (Suc i) rest st1 = Inr st'"
    by (auto split: sum.splits)
  from enrich_game_grows[OF s1] obtain g' fs es where
    a: "enriched_games st1 = enriched_games st @ [g']"
       "failed_steam_ids st1 = failed_steam_ids st @ fs"
       "events st1 = events st @ es" "list_all (at_position i) es" by blast
  from Cons.IH[OF l] obtain out fs' es' where
    b: "enriched_games st' = enriched_games st1 @ out" "length out = length rest"
       "failed_steam_ids st' = failed_steam_ids st1 @ fs'"
       "events st' = events st1 @ es'"
       "list_all (\<lambda>e. \<exists>k. at_position k e \<and> Suc i \<le> k \<and> k < Suc i + length rest) es'"
    by blast
  have "list_all (\<lambda>e. \<exists>k. at_position k e \<and> i \<le> k \<and> k < i + length (g # rest)) es"
    using a(4) by (auto simp: list_all_iff)
  moreover have "list_all (\<lambda>e. \<exists>k. at_position k e \<and> i \<le> k \<and> k < i + length (g # rest)) es'"
    using b(5) by (fastforce simp: list_all_iff)
  ultimately have "list_all (\<lambda>e. \<exists>k. at_position k e \<and> i \<le> k \<and> k < i + length (g # rest)) (es @ es')"
    by simp
  moreover have "enriched_games st' = enriched_games st @ (g' # out)" using a(1) b(1) by simp
  moreover have "length (g' # out) = length (g # rest)" using b(2) by simp
  moreover have "failed_steam_ids st' = failed_steam_ids st @ (fs @ fs')" using a(2) b(3) by simp
  moreover have "events st' = events st @ (es @ es')" using a(3) b(4) by simp
  ultimately show ?case by blast
qed

text \<open>A run, cut at position \<open>k\<close>.\<close>

lemma enrich_loop_at:
  assumes "enrich_loop net idx i recs st = Inr st'" and "k < length recs"
  shows "\<exists>sa sb. enrich_loop net idx i (take k recs) st = Inr sa
      \<and> enrich_game net idx (i + k) (recs ! k) sa = Inr sb
      \<and> enrich_loop net idx (Suc (i + k)) (drop (Suc k) recs) sb = Inr st'"
proof -
  have split: "recs = take k recs @ (recs ! k # drop (Suc k) recs)"
    using assms(2) by (simp add: id_take_nth_drop[symmetric])
  have "enrich_loop net idx i (take k recs @ (recs ! k # drop (Suc k) recs)) st = Inr st'"
    using assms(1) split by simp
  then show ?thesis
    using assms(2) by (auto simp: enrich_loop_append split: sum.splits)
qed

lemma enrich_game_enriched:
  "enrich_game net idx i g st = Inr st1 \<Longrightarrow>
     \<exists>g'. enriched_games st1 = enriched_games st @ [g']
        \<and> (g' = g \<or> (\<exists>p. g' = AList.update ''steamInfo'' p g))"
  by (auto simp: enrich_game_def split: sum.splits option.splits if_splits)

lemma enrich_loop_enriched:
  "enrich_loop net idx i recs st = Inr st' \<Longrightarrow>
     \<exists>out. enriched_games st' = enriched_games st @ out \<and> length out = length recs
        \<and> (\<forall>k<length recs. out ! k = recs ! k
               \<or> (\<exists>p. out ! k = AList.update ''steamInfo'' p (recs ! k)))"
proof (induction recs arbitrary: i st)
  case Nil
  then show ?case by simp
next
  case (Cons g rest)
  from Cons.prems obtain st1 where
    s1: "enrich_game net idx i g st = Inr st1" and
    l: "enrich_loop net idx (Suc i) rest st1 = Inr st'"
    by (auto split: sum.splits)
  from enrich_game_enriched[OF s1] obtain g' where
    g': "enriched_games st1 = enriched_games st @ [g']"
        "g' = g \<or> (\<exists>p. g' = AList.update ''steamInfo'' p g)" by blast
  from Cons.IH[OF l] obtain out where
    out: "enriched_games st' = enriched_games st1 @ out" "length out = length rest"
    "\<forall>k<length rest. out ! k = rest ! k \<or> (\<exists>p. out ! k = AList.update ''steamInfo'' p (rest ! k))"
    by blast
  have "\<forall>k<length (g # rest). (g' # out) ! k = (g # rest) ! k
          \<or> (\<exists>p. (g' # out) ! k = AList.update ''steamInfo'' p ((g # rest) ! k))"
  proof (intro allI impI)
    fix k assume "k < length (g # rest)"
    then show "(g' # out) ! k = (g # rest) ! k
          \<or> (\<exists>p. (g' # out) ! k = AList.update ''steamInfo'' p ((g # rest) ! k))"
      using g'(2) out(3) by (cases k) auto
  qed
  moreover have "enriched_games st' = enriched_games st @ (g' # out)"
    using g'(1) out(1) by simp
  moreover have "length (g' # out) = length (g # rest)" using out(2) by simp
  ultimately show ?case by blast
qed

lemma enrich_game_total:
  "find_steam_app_id g = Inr v \<Longrightarrow> \<exists>st1. enrich_game net idx i g st = Inr st1"
  using get_steamspy_data_total[of "net i (the v)" "the v"]
  by (auto simp: enrich_game_def split: sum.splits option.splits)

lemma enrich_loop_total:
  "list_all (\<lambda>g. \<exists>v. find_steam_app_id g = Inr v) recs \<Longrightarrow>
     \<exists>st'. enrich_loop net idx i recs st = Inr st'"
proof (induction recs arbitrary: i st)
  case Nil
  then show ?case by simp
next
  case (Cons g rest)
  then obtain v where "find_steam_app_id g = Inr v" by auto
  from enrich_game_total[OF this] obtain st1 where "enrich_game net idx i g st = Inr st1"
    by blast
  with Cons show ?case by simp
qed

lemma at_position_unique: "at_position j e \<Longrightarrow> at_position k e \<Longrightarrow> j = k"
  by (cases e) auto

lemma enrich_loop_shape:
  assumes "enrich_loop net idx i recs st = Inr st'" and "k < length recs"
  shows "\<exists>sa sb out_r fs_r es_a es_r.
      enrich_game net idx (i + k) (recs ! k) sa = Inr sb
      \<and> length (enriched_games sa) = length (enriched_games st) + k
      \<and> events sa = events st @ es_a
      \<and> list_all (\<lambda>e. \<exists>j. at_position j e \<and> j < i + k) es_a
      \<and> enriched_games st' = enriched_games sb @ out_r
      \<and> failed_steam_ids st' = failed_steam_ids sb @ fs_r
      \<and> events st' = events sb @ es_r
      \<and> list_all (\<lambda>e. \<exists>j. at_position j e \<and> i + k < j) es_r"
proof -
  from enrich_loop_at[OF assms] obtain sa sb where
    a: "enrich_loop net idx i (take k recs) st = Inr sa" and
    b: "enrich_game net idx (i + k) (recs ! k) sa = Inr sb" and
    c: "enrich_loop net idx (Suc (i + k)) (drop (Suc k) recs) sb = Inr st'" by blast
  from enrich_loop_grows[OF a] assms(2) obtain out_a es_a where
    a': "enriched_games sa = enriched_games st @ out_a" "length out_a = k"
        "events sa = events st @ es_a"
        "list_all (\<lambda>e. \<exists>j. at_position j e \<and> i \<le> j \<and> j < i + k) es_a"
    by (auto simp: min_def)
  from enrich_loop_grows[OF c] obtain out_r fs_r es_r where
    c': "enriched_games st' = enriched_games sb @ out_r"
        "failed_steam_ids st' = failed_steam_ids sb @ fs_r"
        "events st' = events sb @ es_r"
        "list_all (\<lambda>e. \<exists>j. at_position j e \<and> Suc (i + k) \<le> j
            \<and> j < Suc (i + k) + length (drop (Suc k) recs)) es_r"
    by blast
  have "list_all (\<lambda>e. \<exists>j. at_position j e \<and> j < i + k) es_a"
    using a'(4) by (auto simp: list_all_iff)
  moreover have "list_all (\<lambda>e. \<exists>j. at_position j e \<and> i + k < j) es_r"
    using c'(4) by (fastforce simp: list_all_iff)
  moreover have "length (enriched_games sa) = length (enriched_games st) + k"
    using a'(1,2) by simp
  ultimately show ?thesis using b a'(3) c'(1,2,3) by blast
qed

lemma enrich_top:
  assumes "enrich_igdb_with_steam_data net cw recs idx = Inr (out, ev)"
  shows "\<exists>st'. enrich_loop net idx 0 recs enrich_init = Inr st' \<and> out = enriched_games st'
     \<and> ev = events st' @ (if failed_steam_ids st' = [] then []
                            else [WriteFailedIds (failed_steam_ids st')])"
  using assms
  by (auto simp: enrich_igdb_with_steam_data_def split: sum.splits if_splits)

lemma no_event_at:
  assumes "list_all (\<lambda>e. \<exists>j. at_position j e \<and> j < k) es_a"
    and "list_all (\<lambda>e. \<exists>j. at_position j e \<and> k < j) es_r"
  shows "\<not> list_ex (at_position k) (es_a @ es_r)"
proof
  assume "list_ex (at_position k) (es_a @ es_r)"
  then obtain e where e: "e \<in> set es_a \<or> e \<in> set es_r" "at_position k e"
    by (auto simp: list_ex_iff)
  from e(1) show False
  proof
    assume "e \<in> set es_a"
    with assms(1) obtain j where "at_position j e" "j < k" by (auto simp: list_all_iff)
    with e(2) at_position_unique[of j e k] show False by simp
  next
    assume "e \<in> set es_r"
    with assms(2) obtain j where "at_position j e" "k < j" by (auto simp: list_all_iff)
    with e(2) at_position_unique[of j e k] show False by simp
  qed
qed

lemma enrich_pass_through:
  assumes run: "enrich_igdb_with_steam_data net can_write igdb_games steam_apps_dict = Inr (out, ev)"
    and k: "k < length igdb_games"
    and f: "find_steam_app_id (igdb_games ! k) = Inr found"
       "found = None \<or> found = Some 0 \<or> (\<exists>x. found = Some x \<and> steam_apps_dict x = None)"
  shows "\<not> list_ex (at_position k) ev \<and> out ! k = igdb_games ! k"
proof -
  from enrich_top[OF run] obtain st' where
    l: "enrich_loop net steam_apps_dict 0 igdb_games enrich_init = Inr st'" and
    out: "out = enriched_games st'" and
    ev: "ev = events st' @ (if failed_steam_ids st' = [] then []
                            else [WriteFailedIds (failed_steam_ids st')])" by blast
  from enrich_loop_shape[OF l k] obtain sa sb out_r fs_r es_a es_r where
    s: "enrich_game net steam_apps_dict (0 + k) (igdb_games ! k) sa = Inr sb"
       "length (enriched_games sa) = length (enriched_games enrich_init) + k"
       "events sa = events enrich_init @ es_a"
       "list_all (\<lambda>e. \<exists>j. at_position j e \<and> j < 0 + k) es_a"
       "enriched_games st' = enriched_games sb @ out_r"
       "events st' = events sb @ es_r"
       "list_all (\<lambda>e. \<exists>j. at_position j e \<and> 0 + k < j) es_r"
    by blast
  have sb: "sb = sa\<lparr>enriched_games := enriched_games sa @ [igdb_games ! k]\<rparr>"
    using s(1) enrich_game_pass[of "igdb_games ! k" found steam_apps_dict net k sa] f by simp
  have "events st' = es_a @ es_r"
    using s(3,6) sb by (simp add: enrich_init_def)
  moreover have "\<not> list_ex (at_position k) (es_a @ es_r)"
    using no_event_at[of k es_a es_r] s(4,7) by simp
  ultimately have none: "\<not> list_ex (at_position k) (events st')" by simp
  have "\<not> list_ex (at_position k) ev"
    using none ev by (simp add: list_ex_iff)
  moreover have "out ! k = igdb_games ! k"
    using out s(2,5) sb by (simp add: enrich_init_def nth_append)
  ultimately show ?thesis by simp
qed

lemma no_event_at_position:
  "\<not> list_ex (at_position k) ev \<Longrightarrow> (\<forall>x. Fetch k x \<notin> set ev) \<and> Sleep k \<notin> set ev"
  by (force simp: list_ex_iff)

lemma enrich_loop_no_fetch_zero:
  "enrich_loop net idx i recs st = Inr st' \<Longrightarrow> Fetch k 0 \<notin> set (events st) \<Longrightarrow>
     Fetch k 0 \<notin> set (events st')"
proof (induction recs arbitrary: i st)
  case Nil
  then show ?case by simp
next
  case (Cons g rest)
  from Cons.prems(1) obtain st1 where
    s1: "enrich_game net idx i g st = Inr st1" and
    l: "enrich_loop net idx (Suc i) rest st1 = Inr st'"
    by (auto split: sum.splits)
  from enrich_game_grows[OF s1] Cons.prems(2) have "Fetch k 0 \<notin> set (events st1)"
    by auto
  from Cons.IH[OF l this] show ?case .
qed

section \<open>The retry loops\<close>

lemma build_index_origin:
  "build_index i recs m0 = Inr m \<Longrightarrow> m x = Some gi \<Longrightarrow>
     m0 x = Some gi \<or> (i \<le> gi \<and> gi < i + length recs
        \<and> find_steam_app_id_retry (recs ! (gi - i)) = Inr (Some x) \<and> x \<noteq> 0)"
proof (induction recs arbitrary: i m0)
  case Nil
  then show ?case by simp
next
  case (Cons g rest)
  from Cons.prems(1) obtain found m1 where
    f: "find_steam_app_id_retry g = Inr found" and
    m1: "m1 = (case found of None \<Rightarrow> m0 | Some y \<Rightarrow> if y \<noteq> 0 then m0(y \<mapsto> i) else m0)" and
    b: "build_index (Suc i) rest m1 = Inr m"
    by (auto split: sum.splits option.splits if_splits)
  from Cons.IH[OF b Cons.prems(2)] consider
    (old) "m1 x = Some gi" |
    (new) "Suc i \<le> gi" "gi < Suc i + length rest"
          "find_steam_app_id_retry (rest ! (gi - Suc i)) = Inr (Some x)" "x \<noteq> 0"
    by blast
  then show ?case
  proof cases
    case old
    then show ?thesis using f m1
      by (auto split: option.splits if_splits)
  next
    case new
    then have "(g # rest) ! (gi - i) = rest ! (gi - Suc i)"
      by (simp add: nth_Cons' Suc_diff_le)
    with new show ?thesis by simp
  qed
qed

lemma retry_id_miss:
  "m x = None \<Longrightarrow> retry_id net m j x st = Inr (st\<lparr>still_failed := still_failed st @ [x]\<rparr>)"
  by (simp add: retry_id_def)

lemma retry_id_fail:
  "m x = Some gi \<Longrightarrow> get_steamspy_data_retry (net j x) x = Inr None \<Longrightarrow>
   retry_id net m j x st =
     Inr (st\<lparr>still_failed := still_failed st @ [x],
            retry_events := retry_events st @ [Fetch j x, Sleep j]\<rparr>)"
  by (simp add: retry_id_def)

lemma retry_id_success:
  "m x = Some gi \<Longrightarrow> get_steamspy_data_retry (net j x) x = Inr (Some p) \<Longrightarrow>
   gi < length (games st) \<Longrightarrow>
   retry_id net m j x st =
     Inr (st\<lparr>games := (games st)[gi := AList.update ''steamInfo'' p (games st ! gi)],
            success_count := Suc (success_count st),
            retry_events := retry_events st @ [Fetch j x, Sleep j]\<rparr>)"
  using get_steamspy_data_truthy[of "net j x" x p]
  by (simp add: retry_id_def get_steamspy_data_retry_eq)

lemma retry_id_cases:
  assumes "retry_id net m j x st = Inr st1"
  obtains
    (miss) "m x = None" "st1 = st\<lparr>still_failed := still_failed st @ [x]\<rparr>"
  | (fail) gi where "m x = Some gi" "get_steamspy_data_retry (net j x) x = Inr None"
      "st1 = st\<lparr>still_failed := still_failed st @ [x],
            retry_events := retry_events st @ [Fetch j x, Sleep j]\<rparr>"
  | (success) gi p where "m x = Some gi" "get_steamspy_data_retry (net j x) x = Inr (Some p)"
      "gi < length (games st)"
      "st1 = st\<lparr>games := (games st)[gi := AList.update ''steamInfo'' p (games st ! gi)],
            success_count := Suc (success_count st),
            retry_events := retry_events st @ [Fetch j x, Sleep j]\<rparr>"
proof (cases "m x")
  case None
  with assms miss show ?thesis by (simp add: retry_id_miss)
next
  case (Some gi)
  from get_steamspy_data_retry_cases[of "net j x" x] show ?thesis
  proof
    assume n: "get_steamspy_data_retry (net j x) x = Inr None"
    with assms Some fail show ?thesis by (simp add: retry_id_fail)
  next
    assume "\<exists>p. get_steamspy_data_retry (net j x) x = Inr (Some p) \<and> py_truthy p"
    then obtain p where p: "get_steamspy_data_retry (net j x) x = Inr (Some p)" "py_truthy p"
      by blast
    show ?thesis
    proof (cases "gi < length (games st)")
      case True
      with assms Some p success show ?thesis by (simp add: retry_id_success)
    next
      case False
      with assms Some p show ?thesis by (simp add: retry_id_def)
    qed
  qed
qed

lemma retry_loop_append:
  "retry_loop net m j (xs @ ys) st =
     (case retry_loop net m j xs st of
        Inl e \<Rightarrow> Inl e
      | Inr s \<Rightarrow> retry_loop net m (j + length xs) ys s)"
  by (induction xs arbitrary: j st) (auto split: sum.splits)

lemma retry_loop_at:
  assumes "retry_loop net m j ids st = Inr st'" and "k < length ids"
  shows "\<exists>sa sb. retry_loop net m j (take k ids) st = Inr sa
      \<and> retry_id net m (j + k) (ids ! k) sa = Inr sb
      \<and> retry_loop net m (Suc (j + k)) (drop (Suc k) ids) sb = Inr st'"
proof -
  have "retry_loop net m j (take k ids @ (ids ! k # drop (Suc k) ids)) st = Inr st'"
    using assms by (simp add: id_take_nth_drop[symmetric])
  then show ?thesis
    using assms(2) by (auto simp: retry_loop_append split: sum.splits)
qed

lemma retry_loop_grows:
  "retry_loop net m j ids st = Inr st' \<Longrightarrow>
     length (games st') = length (games st)
     \<and> (\<exists>sf es. still_failed st' = still_failed st @ sf \<and> set sf \<subseteq> set ids
          \<and> retry_events st' = retry_events st @ es
          \<and> list_all (\<lambda>e. \<exists>k. at_position k e \<and> j \<le> k \<and> k < j + length ids) es
          \<and> success_count st' + length sf = success_count st + length ids)"
proof (induction ids arbitrary: j st)
  case Nil
  then show ?case by simp
next
  case (Cons x rest)
  from Cons.prems obtain st1 where
    s1: "retry_id net m j x st = Inr st1" and
    l: "retry_loop net m (Suc j) rest st1 = Inr st'"
    by (auto split: sum.splits)
  from s1 have a: "length (games st1) = length (games st)
     \<and> (\<exists>sf es. still_failed st1 = still_failed st @ sf \<and> set sf \<subseteq> {x}
          \<and> retry_events st1 = retry_events st @ es \<and> list_all (at_position j) es
          \<and> success_count st1 + length sf = Suc (success_count st))"
    by (cases rule: retry_id_cases) auto
  then obtain sf es where a':
    "length (games st1) = length (games st)" "still_failed st1 = still_failed st @ sf"
    "set sf \<subseteq> {x}" "retry_events st1 = retry_events st @ es" "list_all (at_position j) es"
    "success_count st1 + length sf = Suc (success_count st)" by blast
  from Cons.IH[OF l] obtain sf' es' where b:
    "length (games st') = length (games st1)" "still_failed st' = still_failed st1 @ sf'"
    "set sf' \<subseteq> set rest" "retry_events st' = retry_events st1 @ es'"
    "list_all (\<lambda>e. \<exists>k. at_position k e \<and> Suc j \<le> k \<and> k < Suc j + length rest) es'"
    "success_count st' + length sf' = success_count st1 + length rest" by blast
  have "list_all (\<lambda>e. \<exists>k. at_position k e \<and> j \<le> k \<and> k < j + length (x # rest)) es"
    using a'(5) by (auto simp: list_all_iff)
  moreover have "list_all (\<lambda>e. \<exists>k. at_position k e \<and> j \<le> k \<and> k < j + length (x # rest)) es'"
    using b(5) by (fastforce simp: list_all_iff)
  ultimately have "list_all (\<lambda>e. \<exists>k. at_position k e \<and> j \<le> k \<and> k < j + length (x # rest)) (es @ es')"
    by simp
  moreover have "still_failed st' = still_failed st @ (sf @ sf')" using a'(2) b(2) by simp
  moreover have "set (sf @ sf') \<subseteq> set (x # rest)" using a'(3) b(3) by auto
  moreover have "retry_events st' = retry_events st @ (es @ es')" using a'(4) b(4) by simp
  moreover have "success_count st' + length (sf @ sf') = success_count st + length (x # rest)"
    using a'(6) b(6) by simp
  moreover have "length (games st') = length (games st)" using a'(1) b(1) by simp
  ultimately show ?case by blast
qed

lemma retry_loop_total:
  "(\<And>x gi. m x = Some gi \<Longrightarrow> gi < length (games st)) \<Longrightarrow>
     \<exists>st'. retry_loop net m j ids st = Inr st'"
proof (induction ids arbitrary: j st)
  case Nil
  then show ?case by simp
next
  case (Cons x rest)
  have "\<exists>st1. retry_id net m j x st = Inr st1 \<and> length (games st1) = length (games st)"
  proof (cases "m x")
    case None
    then show ?thesis by (simp add: retry_id_miss)
  next
    case (Some gi)
    then have "gi < length (games st)" by (rule Cons.prems)
    with Some get_steamspy_data_retry_cases[of "net j x" x] show ?thesis
      by (auto simp: retry_id_fail retry_id_success)
  qed
  then obtain st1 where s1: "retry_id net m j x st = Inr st1"
      "length (games st1) = length (games st)" by blast
  have "\<exists>st'. retry_loop net m (Suc j) rest st1 = Inr st'"
    by (rule Cons.IH) (simp add: s1(2) Cons.prems)
  with s1 show ?case by simp
qed

lemma retry_loop_untouched:
  "retry_loop net m j ids st = Inr st' \<Longrightarrow> (\<And>y. y \<in> set ids \<Longrightarrow> m y \<noteq> Some gi) \<Longrightarrow>
     games st' ! gi = games st ! gi"
proof (induction ids arbitrary: j st)
  case Nil
  then show ?case by simp
next
  case (Cons x rest)
  from Cons.prems(1) obtain st1 where
    s1: "retry_id net m j x st = Inr st1" and
    l: "retry_loop net m (Suc j) rest st1 = Inr st'"
    by (auto split: sum.splits)
  have "m x \<noteq> Some gi" by (rule Cons.prems(2)) simp
  with s1 have "games st1 ! gi = games st ! gi"
    by (cases rule: retry_id_cases) auto
  moreover have "games st' ! gi = games st1 ! gi"
    by (rule Cons.IH[OF l]) (simp add: Cons.prems(2))
  ultimately show ?case by simp
qed

lemma retry_loop_games:
  "retry_loop net m j ids st = Inr st' \<Longrightarrow> gi < length (games st) \<Longrightarrow>
     games st' ! gi = games st ! gi
     \<or> (\<exists>k p. k < length ids \<and> m (ids ! k) = Some gi
           \<and> get_steamspy_data_retry (net (j + k) (ids ! k)) (ids ! k) = Inr (Some p)
           \<and> games st' ! gi = AList.update ''steamInfo'' p (games st ! gi))"
proof (induction ids arbitrary: j st)
  case Nil
  then show ?case by simp
next
  case (Cons x rest)
  from Cons.prems(1) obtain st1 where
    s1: "retry_id net m j x st = Inr st1" and
    l: "retry_loop net m (Suc j) rest st1 = Inr st'"
    by (auto split: sum.splits)
  let ?hit = "\<lambda>k p base. k < length (x # rest) \<and> m ((x # rest) ! k) = Some gi
           \<and> get_steamspy_data_retry (net (j + k) ((x # rest) ! k)) ((x # rest) ! k) = Inr (Some p)
           \<and> games st' ! gi = AList.update ''steamInfo'' p base"
  from s1 have len: "length (games st1) = length (games st)"
    by (cases rule: retry_id_cases) auto
  with Cons.prems(2) have "gi < length (games st1)" by simp
  from Cons.IH[OF l this] consider
    (same) "games st' ! gi = games st1 ! gi" |
    (later) k p where "k < length rest" "m (rest ! k) = Some gi"
        "get_steamspy_data_retry (net (Suc j + k) (rest ! k)) (rest ! k) = Inr (Some p)"
        "games st' ! gi = AList.update ''steamInfo'' p (games st1 ! gi)"
    by blast
  then show ?case
  proof cases
    case same
    from s1 show ?thesis
    proof (cases rule: retry_id_cases)
      case miss
      with same show ?thesis by simp
    next
      case (fail g0)
      with same show ?thesis by simp
    next
      case (success g0 p0)
      show ?thesis
      proof (cases "g0 = gi")
        case True
        with success same Cons.prems(2) have "?hit 0 p0 (games st ! gi)" by simp
        then show ?thesis by blast
      next
        case False
        with success same show ?thesis by simp
      qed
    qed
  next
    case later
    have "games st1 ! gi = games st ! gi
        \<or> (\<exists>p0. games st1 ! gi = AList.update ''steamInfo'' p0 (games st ! gi))"
      using s1 Cons.prems(2)
      by (cases rule: retry_id_cases) (auto simp: nth_list_update)
    then have "games st' ! gi = AList.update ''steamInfo'' p (games st ! gi)"
      using later(4) by auto
    with later have "?hit (Suc k) p (games st ! gi)" by simp
    then show ?thesis by blast
  qed
qed

lemma build_index_empty:
  assumes "build_index 0 recs Map.empty = Inr m" and "m x = Some gi"
  shows "gi < length recs \<and> find_steam_app_id_retry (recs ! gi) = Inr (Some x) \<and> x \<noteq> 0"
  using build_index_origin[OF assms] by simp

lemma build_index_inj:
  assumes "build_index 0 recs Map.empty = Inr m" and "m x = Some gi" and "m y = Some gi"
  shows "x = y"
  using build_index_empty[OF assms(1,2)] build_index_empty[OF assms(1,3)] by simp

lemma retry_loop_distinct:
  "retry_loop net m j ids st = Inr st' \<Longrightarrow> distinct (still_failed st @ ids) \<Longrightarrow>
     distinct (still_failed st')"
proof (induction ids arbitrary: j st)
  case Nil
  then show ?case by simp
next
  case (Cons x rest)
  from Cons.prems(1) obtain st1 where
    s1: "retry_id net m j x st = Inr st1" and
    l: "retry_loop net m (Suc j) rest st1 = Inr st'"
    by (auto split: sum.splits)
  from s1 have "still_failed st1 = still_failed st \<or> still_failed st1 = still_failed st @ [x]"
    by (cases rule: retry_id_cases) auto
  with Cons.prems(2) have "distinct (still_failed st1 @ rest)" by auto
  from Cons.IH[OF l this] show ?case .
qed

lemma retry_loop_shape:
  assumes "retry_loop net m j ids st = Inr st'" and "k < length ids"
  shows "\<exists>sa sb sf_a sf_r es_a es_r.
      retry_id net m (j + k) (ids ! k) sa = Inr sb
      \<and> retry_loop net m (Suc (j + k)) (drop (Suc k) ids) sb = Inr st'
      \<and> length (games sa) = length (games st)
      \<and> still_failed sa = still_failed st @ sf_a \<and> set sf_a \<subseteq> set (take k ids)
      \<and> retry_events sa = retry_events st @ es_a
      \<and> list_all (\<lambda>e. \<exists>i. at_position i e \<and> i < j + k) es_a
      \<and> still_failed st' = still_failed sb @ sf_r \<and> set sf_r \<subseteq> set (drop (Suc k) ids)
      \<and> retry_events st' = retry_events sb @ es_r
      \<and> list_all (\<lambda>e. \<exists>i. at_position i e \<and> j + k < i) es_r"
proof -
  from retry_loop_at[OF assms] obtain sa sb where
    a: "retry_loop net m j (take k ids) st = Inr sa" and
    b: "retry_id net m (j + k) (ids ! k) sa = Inr sb" and
    c: "retry_loop net m (Suc (j + k)) (drop (Suc k) ids) sb = Inr st'" by blast
  from retry_loop_grows[OF a] assms(2) obtain sf_a es_a where
    a': "length (games sa) = length (games st)"
        "still_failed sa = still_failed st @ sf_a" "set sf_a \<subseteq> set (take k ids)"
        "retry_events sa = retry_events st @ es_a"
        "list_all (\<lambda>e. \<exists>i. at_position i e \<and> j \<le> i \<and> i < j + k) es_a"
    by (auto simp: min_def)
  from retry_loop_grows[OF c] obtain sf_r es_r where
    c': "still_failed st' = still_failed sb @ sf_r" "set sf_r \<subseteq> set (drop (Suc k) ids)"
        "retry_events st' = retry_events sb @ es_r"
        "list_all (\<lambda>e. \<exists>i. at_position i e \<and> Suc (j + k) \<le> i
            \<and> i < Suc (j + k) + length (drop (Suc k) ids)) es_r"
    by blast
  have "list_all (\<lambda>e. \<exists>i. at_position i e \<and> i < j + k) es_a"
    using a'(5) by (auto simp: list_all_iff)
  moreover have "list_all (\<lambda>e. \<exists>i. at_position i e \<and> j + k < i) es_r"
    using c'(4) by (fastforce simp: list_all_iff)
  ultimately show ?thesis using b c a'(1,2,3,4) c'(1,2,3) by blast
qed

lemma distinct_nth_not_in_rest:
  assumes "distinct ids" and "k < length ids"
  shows "ids ! k \<notin> set (take k ids) \<and> ids ! k \<notin> set (drop (Suc k) ids)"
proof -
  have "distinct (take k ids @ ids ! k # drop (Suc k) ids)"
    using assms by (simp add: id_take_nth_drop[symmetric])
  then show ?thesis by auto
qed

text \<open>What a run leaves behind for the identifier at position \<open>k\<close>: a lookup miss, a
  failed fetch, a successful fetch.\<close>

lemma retry_at_miss:
  assumes run: "retry_loop net m 0 ids st = Inr st'" and k: "k < length ids"
    and miss: "m (ids ! k) = None" and ev0: "retry_events st = []"
  shows "ids ! k \<in> set (still_failed st') \<and> \<not> list_ex (at_position k) (retry_events st')"
proof -
  from retry_loop_shape[OF run k] obtain sa sb sf_r es_a es_r where
    s: "retry_id net m (0 + k) (ids ! k) sa = Inr sb"
       "retry_events sa = retry_events st @ es_a"
       "list_all (\<lambda>e. \<exists>i. at_position i e \<and> i < 0 + k) es_a"
       "still_failed st' = still_failed sb @ sf_r"
       "retry_events st' = retry_events sb @ es_r"
       "list_all (\<lambda>e. \<exists>i. at_position i e \<and> 0 + k < i) es_r"
    by blast
  have sb: "sb = sa\<lparr>still_failed := still_failed sa @ [ids ! k]\<rparr>"
    using s(1) retry_id_miss[of m "ids ! k" net k sa] miss by simp
  have "retry_events st' = es_a @ es_r" using s(2,5) sb ev0 by simp
  moreover have "\<not> list_ex (at_position k) (es_a @ es_r)"
    using no_event_at[of k es_a es_r] s(3,6) by simp
  moreover have "ids ! k \<in> set (still_failed st')" using s(4) sb by simp
  ultimately show ?thesis by simp
qed

lemma retry_at_fail:
  assumes run: "retry_loop net m 0 ids st = Inr st'" and k: "k < length ids"
    and hit: "m (ids ! k) = Some gi"
    and fails: "get_steamspy_data_retry (net k (ids ! k)) (ids ! k) = Inr None"
  shows "ids ! k \<in> set (still_failed st') \<and> Fetch k (ids ! k) \<in> set (retry_events st')"
proof -
  from retry_loop_shape[OF run k] obtain sa sb sf_r es_r where
    s: "retry_id net m (0 + k) (ids ! k) sa = Inr sb"
       "still_failed st' = still_failed sb @ sf_r"
       "retry_events st' = retry_events sb @ es_r"
    by blast
  have sb: "sb = sa\<lparr>still_failed := still_failed sa @ [ids ! k],
            retry_events := retry_events sa @ [Fetch k (ids ! k), Sleep k]\<rparr>"
    using s(1) retry_id_fail[of m "ids ! k" gi net k sa] hit fails by simp
  show ?thesis using s(2,3) sb by simp
qed

lemma retry_at_success:
  assumes idx: "build_index 0 recs Map.empty = Inr m"
    and run: "retry_loop net m 0 ids st = Inr st'" and k: "k < length ids"
    and d: "distinct ids" and fresh: "ids ! k \<notin> set (still_failed st)"
    and hit: "m (ids ! k) = Some gi"
    and ok: "get_steamspy_data_retry (net k (ids ! k)) (ids ! k) = Inr (Some p)"
  shows "ids ! k \<notin> set (still_failed st') \<and> Fetch k (ids ! k) \<in> set (retry_events st')
     \<and> map_of (games st' ! gi) ''steamInfo'' = Some p"
proof -
  from retry_loop_shape[OF run k] obtain sa sb sf_a sf_r es_r where
    s: "retry_id net m (0 + k) (ids ! k) sa = Inr sb"
       "retry_loop net m (Suc (0 + k)) (drop (Suc k) ids) sb = Inr st'"
       "still_failed sa = still_failed st @ sf_a" "set sf_a \<subseteq> set (take k ids)"
       "still_failed st' = still_failed sb @ sf_r" "set sf_r \<subseteq> set (drop (Suc k) ids)"
       "retry_events st' = retry_events sb @ es_r"
    by blast
  from s(1) obtain gi' p' where
    c: "m (ids ! k) = Some gi'" "get_steamspy_data_retry (net (0 + k) (ids ! k)) (ids ! k) = Inr (Some p')"
       "gi' < length (games sa)"
       "sb = sa\<lparr>games := (games sa)[gi' := AList.update ''steamInfo'' p' (games sa ! gi')],
            success_count := Suc (success_count sa),
            retry_events := retry_events sa @ [Fetch (0 + k) (ids ! k), Sleep (0 + k)]\<rparr>"
    using hit ok by (cases rule: retry_id_cases) auto
  from c(1,2) hit ok have eq: "gi' = gi" "p' = p" by simp_all
  note nin = distinct_nth_not_in_rest[OF d k]
  have "ids ! k \<notin> set (still_failed st')"
    using s(3,4,5,6) c(4) fresh nin by auto
  moreover have "Fetch k (ids ! k) \<in> set (retry_events st')"
    using s(7) c(4) by simp
  moreover have "map_of (games st' ! gi) ''steamInfo'' = Some p"
  proof -
    have "\<And>y. y \<in> set (drop (Suc k) ids) \<Longrightarrow> m y \<noteq> Some gi"
    proof
      fix y assume y: "y \<in> set (drop (Suc k) ids)" and "m y = Some gi"
      with build_index_inj[OF idx hit] have "ids ! k = y" by simp
      with y nin show False by simp
    qed
    from retry_loop_untouched[OF s(2) this] have "games st' ! gi = games sb ! gi" by simp
    also have "\<dots> = AList.update ''steamInfo'' p (games sa ! gi)"
      using c(3,4) eq by simp
    finally show ?thesis by (simp add: update_conv')
  qed
  ultimately show ?thesis by simp
qed

lemma retry_top:
  assumes "build_index 0 recs Map.empty = Inr m"
  shows "retry_failed_fetches net ids recs =
     retry_loop net m 0 ids
       \<lparr>games = recs, still_failed = [], success_count = 0, retry_events = []\<rparr>"
  using assms by (simp add: retry_failed_fetches_def)

lemma retry_returns:
  assumes "build_index 0 recs Map.empty = Inr m"
  shows "\<exists>st. retry_failed_fetches net ids recs = Inr st"
proof -
  have "\<exists>st'. retry_loop net m 0 ids
       \<lparr>games = recs, still_failed = [], success_count = 0, retry_events = []\<rparr> = Inr st'"
  proof (rule retry_loop_total)
    fix x gi assume "m x = Some gi"
    from build_index_empty[OF assms this]
    show "gi < length (games \<lparr>games = recs, still_failed = [], success_count = 0,
        retry_events = []\<rparr>)" by simp
  qed
  then show ?thesis by (simp add: retry_top[OF assms])
qed

lemma retry_loop_no_fetch_zero:
  "retry_loop net m j ids st = Inr st' \<Longrightarrow> m 0 = None \<Longrightarrow>
     Fetch k 0 \<notin> set (retry_events st) \<Longrightarrow> Fetch k 0 \<notin> set (retry_events st')"
proof (induction ids arbitrary: j st)
  case Nil
  then show ?case by simp
next
  case (Cons x rest)
  from Cons.prems(1) obtain st1 where
    s1: "retry_id net m j x st = Inr st1" and
    l: "retry_loop net m (Suc j) rest st1 = Inr st'"
    by (auto split: sum.splits)
  from s1 Cons.prems(2,3) have "Fetch k 0 \<notin> set (retry_events st1)"
    by (cases rule: retry_id_cases) auto
  from Cons.IH[OF l Cons.prems(2) this] show ?case .
qed

lemma build_index_zero:
  assumes "build_index 0 recs Map.empty = Inr m"
  shows "m 0 = None"
proof (cases "m 0")
  case None
  then show ?thesis .
next
  case (Some gi)
  from build_index_empty[OF assms this] show ?thesis by simp
qed

lemma distinct_count_list_one: "distinct xs \<Longrightarrow> x \<in> set xs \<Longrightarrow> count_list xs x = 1"
  by (induction xs) auto

lemma retry_at_success_last:
  assumes run: "retry_loop net m 0 ids st = Inr st'" and k: "k < length ids"
    and hit: "m (ids ! k) = Some gi"
    and ok: "get_steamspy_data_retry (net k (ids ! k)) (ids ! k) = Inr (Some p)"
  shows "\<exists>k' p'. k' < length ids \<and> m (ids ! k') = Some gi
      \<and> get_steamspy_data_retry (net k' (ids ! k')) (ids ! k') = Inr (Some p')
      \<and> map_of (games st' ! gi) ''steamInfo'' = Some p'"
proof -
  from retry_loop_shape[OF run k] obtain sa sb where
    s: "retry_id net m (0 + k) (ids ! k) sa = Inr sb"
       "retry_loop net m (Suc (0 + k)) (drop (Suc k) ids) sb = Inr st'"
    by blast
  from s(1) obtain gi' p' where
    c: "m (ids ! k) = Some gi'"
       "get_steamspy_data_retry (net (0 + k) (ids ! k)) (ids ! k) = Inr (Some p')"
       "gi' < length (games sa)"
       "sb = sa\<lparr>games := (games sa)[gi' := AList.update ''steamInfo'' p' (games sa ! gi')],
            success_count := Suc (success_count sa),
            retry_events := retry_events sa @ [Fetch (0 + k) (ids ! k), Sleep (0 + k)]\<rparr>"
    using hit ok by (cases rule: retry_id_cases) auto
  from c(1,2) hit ok have eq: "gi' = gi" "p' = p" by simp_all
  have sbgi: "games sb ! gi = AList.update ''steamInfo'' p (games sa ! gi)"
    using c(3,4) eq by simp
  have "gi < length (games sb)" using c(3,4) eq by simp
  from retry_loop_games[OF s(2) this] consider
    (same) "games st' ! gi = games sb ! gi" |
    (later) i q where "i < length (drop (Suc k) ids)" "m (drop (Suc k) ids ! i) = Some gi"
      "get_steamspy_data_retry (net (Suc (0 + k) + i) (drop (Suc k) ids ! i))
          (drop (Suc k) ids ! i) = Inr (Some q)"
      "games st' ! gi = AList.update ''steamInfo'' q (games sb ! gi)"
    by blast
  then show ?thesis
  proof cases
    case same
    with sbgi have "map_of (games st' ! gi) ''steamInfo'' = Some p" by (simp add: update_conv')
    with k hit ok show ?thesis by blast
  next
    case later
    let ?k' = "Suc k + i"
    from later(1) have k': "?k' < length ids" by simp
    then have nth: "drop (Suc k) ids ! i = ids ! ?k'" by simp
    have "map_of (games st' ! gi) ''steamInfo'' = Some q"
      using later(4) by (simp add: update_conv')
    moreover have "m (ids ! ?k') = Some gi" using later(2) nth by simp
    moreover have "get_steamspy_data_retry (net ?k' (ids ! ?k')) (ids ! ?k') = Inr (Some q)"
      using later(3) nth by simp
    ultimately show ?thesis using k' by blast
  qed
qed

lemma upt_0_Suc_shift: "[0..<Suc n] = 0 # map Suc [0..<n]"
  by (simp add: upt_conv_Cons map_Suc_upt del: upt_Suc)

lemma retry_loop_still_failed:
  "retry_loop net m j ids st = Inr st' \<Longrightarrow>
     still_failed st' = still_failed st @
       map ((!) ids)
         (filter (\<lambda>k. m (ids ! k) = None
                      \<or> get_steamspy_data_retry (net (j + k) (ids ! k)) (ids ! k) = Inr None)
            [0..<length ids])"
proof (induction ids arbitrary: j st)
  case Nil
  then show ?case by simp
next
  case (Cons x rest)
  from Cons.prems obtain st1 where
    s1: "retry_id net m j x st = Inr st1" and
    l: "retry_loop net m (Suc j) rest st1 = Inr st'"
    by (auto split: sum.splits)
  let ?P = "\<lambda>k. m ((x # rest) ! k) = None
      \<or> get_steamspy_data_retry (net (j + k) ((x # rest) ! k)) ((x # rest) ! k) = Inr None"
  let ?Q = "\<lambda>k. m (rest ! k) = None
      \<or> get_steamspy_data_retry (net (Suc j + k) (rest ! k)) (rest ! k) = Inr None"
  have tail: "map ((!) (x # rest)) (filter ?P (map Suc [0..<length rest]))
      = map ((!) rest) (filter ?Q [0..<length rest])"
    by (simp add: filter_map comp_def)
  have head: "still_failed st1 = still_failed st @ (if ?P 0 then [x] else [])"
    using s1 by (cases rule: retry_id_cases) auto
  have "still_failed st' = still_failed st1 @ map ((!) rest) (filter ?Q [0..<length rest])"
    by (rule Cons.IH[OF l])
  also have "\<dots> = still_failed st @ (if ?P 0 then [x] else [])
      @ map ((!) (x # rest)) (filter ?P (map Suc [0..<length rest]))"
    using head tail by simp
  also have "(if ?P 0 then [x] else [])
      @ map ((!) (x # rest)) (filter ?P (map Suc [0..<length rest]))
      = map ((!) (x # rest)) (filter ?P [0..<length (x # rest)])"
    by (simp add: upt_0_Suc_shift del: upt_Suc)
  finally show ?case .
qed

lemma retry_at_hit:
  assumes run: "retry_loop net m 0 ids st = Inr st'" and k: "k < length ids"
    and hit: "m (ids ! k) = Some gi"
  shows "Fetch k (ids ! k) \<in> set (retry_events st')"
proof -
  from retry_loop_shape[OF run k] obtain sa sb es_r where
    s: "retry_id net m (0 + k) (ids ! k) sa = Inr sb"
       "retry_events st' = retry_events sb @ es_r"
    by blast
  from s(1) hit have "Fetch k (ids ! k) \<in> set (retry_events sb)"
    by (cases rule: retry_id_cases) auto
  with s(2) show ?thesis by simp
qed


section \<open>The claims about extraction and the fetcher\<close>

text \<open>
  Claim C2. Extraction is said never to raise: a record whose cross-reference entries have
  malformed or missing source data should give "none" or skip the entry. The enrichment
  script subscripts the result of \<^verbatim>\<open>external_game.get('external_game_source')\<close>, so an
  entry without that field raises \<^verbatim>\<open>TypeError\<close> out of \<^verbatim>\<open>find_steam_app_id\<close>; the
  retry script's version reads the same entry with \<^verbatim>\<open>.get(..., {}).get('name')\<close> and
  returns "none".
\<close>

theorem find_steam_app_id_missing_source_raises:
  "find_steam_app_id (game [JObj [(''uid'', JStr ''440'')]]) = Inl TypeError
   \<and> find_steam_app_id_retry (game [JObj [(''uid'', JStr ''440'')]]) = Inr None"
  by (simp add: find_defs)

text \<open>
  Claim C3, as stated, ties a payload to a 2xx status. The code asks
  \<^verbatim>\<open>raise_for_status()\<close>, which lets every status outside 400 to 599 through: a
  response with status 300 and a matching body is returned as the payload.
\<close>

theorem get_steamspy_data_status_counterexample:
  "get_steamspy_data (Response 300 (Body (JObj [(''appid'', JInt 440)]))) 440
     = Inr (Some (JObj [(''appid'', JInt 440)]))
   \<and> \<not> (200 \<le> (300::nat) \<and> (300::nat) < 300)"
  by (simp add: get_steamspy_data_def steamspy_request_def dict_get_def)

text \<open>
  Claim C3, amended. The fetcher returns the payload \<open>p\<close> exactly when the request comes
  back with a status that \<^verbatim>\<open>raise_for_status()\<close> accepts (below 400 or from 600), the
  body parses to a dictionary, that dictionary is \<open>p\<close>, and its \<^verbatim>\<open>appid\<close> field is there
  and equal (Python's \<^verbatim>\<open>==\<close>) to the requested identifier. A different or missing
  identifier therefore gives no payload. The fetcher never raises, whatever the outcome
  of the request, and the retry script's fetcher computes the same result.
\<close>

theorem get_steamspy_data_payload_iff:
  "(get_steamspy_data outcome x = Inr (Some p) \<longleftrightarrow>
     (\<exists>status d v. outcome = Response status (Body (JObj d)) \<and> (status < 400 \<or> 600 \<le> status)
        \<and> p = JObj d \<and> map_of d ''appid'' = Some v \<and> py_eq_int v x))
   \<and> (\<exists>r. get_steamspy_data outcome x = Inr r)
   \<and> get_steamspy_data_retry outcome x = get_steamspy_data outcome x"
proof -
  have "get_steamspy_data outcome x = Inr (Some p) \<longleftrightarrow> steamspy_request outcome x = Inr (Some p)"
    by (auto simp: get_steamspy_data_def is_Exception_def split: sum.splits)
  then show ?thesis
    using steamspy_request_Some[of outcome x p] get_steamspy_data_total[of outcome x]
      get_steamspy_data_retry_eq[of outcome x] by simp
qed

text \<open>
  Claim C6. An entry whose \<^verbatim>\<open>uid\<close> cannot be converted is said to be skipped, so that
  the scan goes on to the next entry. The handler catches \<^verbatim>\<open>ValueError\<close> and
  \<^verbatim>\<open>TypeError\<close>; \<^verbatim>\<open>int\<close> of an infinite float (what \<^verbatim>\<open>json.load\<close> makes of
  \<^verbatim>\<open>Infinity\<close> or \<^verbatim>\<open>1e999\<close>) raises \<^verbatim>\<open>OverflowError\<close>, which leaves the function
  although the next entry holds the identifier 440. (For every entry that is passed over
  in the sense of \<open>skipped\<close>, the first-match rule itself holds: \<open>scan_first_match\<close>,
  \<open>scan_result\<close>.)
\<close>

theorem find_steam_app_id_infinite_uid_raises:
  "find_steam_app_id (game [entry ''Steam'' (JFloat PosInf), entry ''Steam'' (JStr ''440'')])
     = Inl OverflowError"
  by (simp add: find_defs)

section \<open>The claims about the enrichment driver\<close>

text \<open>
  Claim C4. Take a run of the driver that returns, and a record at position \<open>k\<close> whose
  extracted identifier \<open>x\<close> is in the secondary index and for which the fetcher fails
  (\<open>x\<close> is not 0: for 0 the fetcher is never called). Then \<open>x\<close> is in the failure list that
  the run writes, and the output record at \<open>k\<close> is the input record unchanged: a primary
  record, which has no \<^verbatim>\<open>steamInfo\<close> field, still has none.
\<close>

theorem enrich_failure_recorded:
  assumes run: "enrich_igdb_with_steam_data net can_write igdb_games steam_apps_dict = Inr (out, ev)"
    and k: "k < length igdb_games"
    and found: "find_steam_app_id (igdb_games ! k) = Inr (Some x)"
    and nz: "x \<noteq> 0"
    and known: "steam_apps_dict x \<noteq> None"
    and fails: "get_steamspy_data (net k x) x = Inr None"
    and primary: "map_of (igdb_games ! k) ''steamInfo'' = None"
  shows "(\<exists>ids. WriteFailedIds ids \<in> set ev \<and> x \<in> set ids)
     \<and> out ! k = igdb_games ! k \<and> map_of (out ! k) ''steamInfo'' = None"
proof -
  from enrich_top[OF run] obtain st' where
    l: "enrich_loop net steam_apps_dict 0 igdb_games enrich_init = Inr st'" and
    out: "out = enriched_games st'" and
    ev: "ev = events st' @ (if failed_steam_ids st' = [] then []
                            else [WriteFailedIds (failed_steam_ids st')])" by blast
  from enrich_loop_shape[OF l k] obtain sa sb out_r fs_r where
    s: "enrich_game net steam_apps_dict (0 + k) (igdb_games ! k) sa = Inr sb"
       "length (enriched_games sa) = length (enriched_games enrich_init) + k"
       "enriched_games st' = enriched_games sb @ out_r"
       "failed_steam_ids st' = failed_steam_ids sb @ fs_r"
    by blast
  have sb: "sb = sa\<lparr>enriched_games := enriched_games sa @ [igdb_games ! k],
            failed_steam_ids := failed_steam_ids sa @ [x],
            events := events sa @ [Fetch k x, Sleep k]\<rparr>"
    using s(1) enrich_game_fail[of "igdb_games ! k" x steam_apps_dict net k sa] found nz known fails by simp
  have mem: "x \<in> set (failed_steam_ids st')"
    using s(4) sb by simp
  then have "failed_steam_ids st' \<noteq> []" by auto
  with ev mem have "WriteFailedIds (failed_steam_ids st') \<in> set ev \<and> x \<in> set (failed_steam_ids st')"
    by simp
  then have "\<exists>ids. WriteFailedIds ids \<in> set ev \<and> x \<in> set ids" by blast
  moreover have same: "out ! k = igdb_games ! k"
    using out s(2,3) sb by (simp add: enrich_init_def nth_append)
  ultimately show ?thesis using primary by simp
qed

theorem enrich_failure_recorded_witness:
  "enrich_igdb_with_steam_data net_down True [game_440] known_440
     = Inr ([game_440], [Fetch 0 440, Sleep 0, WriteFailedIds [440]])
   \<and> find_steam_app_id game_440 = Inr (Some 440)
   \<and> known_440 440 \<noteq> None
   \<and> get_steamspy_data (net_down 0 440) 440 = Inr None
   \<and> map_of game_440 ''steamInfo'' = None
   \<and> (\<exists>ids. WriteFailedIds ids \<in> set [Fetch 0 440, Sleep 0, WriteFailedIds [440]] \<and> 440 \<in> set ids)
   \<and> map_of ([game_440] ! 0) ''steamInfo'' = None"
proof -
  have run: "enrich_igdb_with_steam_data net_down True [game_440] known_440
     = Inr ([game_440], [Fetch 0 440, Sleep 0, WriteFailedIds [440]])"
    by (simp add: enrich_defs)
  have found: "find_steam_app_id ([game_440] ! 0) = Inr (Some 440)"
    by (simp add: find_440)
  have known: "known_440 440 \<noteq> None" by (simp add: known_440_def)
  have fails: "get_steamspy_data (net_down 0 440) 440 = Inr None"
    by (rule fetch_down)
  have primary: "map_of ([game_440] ! 0) ''steamInfo'' = None"
    by (simp add: game_440_def game_def)
  from enrich_failure_recorded[OF run _ found _ known fails primary] run found known fails primary
  show ?thesis by simp
qed

text \<open>
  Claim C5. When extraction raises on no record of the input and the failure document
  can be written, the driver returns; the output has as many records as the input, and
  the record at each position is the input record of that position, unchanged or with
  the \<^verbatim>\<open>steamInfo\<close> field set -- whatever the network answers.
\<close>

theorem enrich_preserves_order:
  assumes "list_all (\<lambda>g. \<exists>v. find_steam_app_id g = Inr v) igdb_games"
  shows "\<exists>out ev. enrich_igdb_with_steam_data net True igdb_games steam_apps_dict = Inr (out, ev)
     \<and> length out = length igdb_games
     \<and> (\<forall>k<length igdb_games. out ! k = igdb_games ! k
           \<or> (\<exists>p. out ! k = AList.update ''steamInfo'' p (igdb_games ! k)))"
proof -
  from enrich_loop_total[OF assms] obtain st' where
    l: "enrich_loop net steam_apps_dict 0 igdb_games enrich_init = Inr st'" by blast
  from enrich_loop_enriched[OF l] obtain out where
    o: "enriched_games st' = enriched_games enrich_init @ out" "length out = length igdb_games"
       "\<forall>k<length igdb_games. out ! k = igdb_games ! k
           \<or> (\<exists>p. out ! k = AList.update ''steamInfo'' p (igdb_games ! k))" by blast
  have "enriched_games st' = out" using o(1) by (simp add: enrich_init_def)
  with l o(2,3) show ?thesis
    by (auto simp: enrich_igdb_with_steam_data_def)
qed

theorem enrich_preserves_order_witness:
  "list_all (\<lambda>g. \<exists>v. find_steam_app_id g = Inr v) [game_440, game [], game_570]
   \<and> enrich_igdb_with_steam_data net_echo True [game_440, game [], game_570] known_440
       = Inr ([AList.update ''steamInfo'' (payload 440) game_440, game [], game_570],
              [Fetch 0 440, Sleep 0])
   \<and> (\<exists>out ev. enrich_igdb_with_steam_data net_echo True [game_440, game [], game_570] known_440
          = Inr (out, ev) \<and> length out = 3)"
proof -
  have none: "find_steam_app_id (game []) = Inr None"
    by (simp add: find_defs)
  have h: "list_all (\<lambda>g. \<exists>v. find_steam_app_id g = Inr v) [game_440, game [], game_570]"
    by (simp add: find_440 find_570 none)
  have run: "enrich_igdb_with_steam_data net_echo True [game_440, game [], game_570] known_440
       = Inr ([AList.update ''steamInfo'' (payload 440) game_440, game [], game_570],
              [Fetch 0 440, Sleep 0])"
    by (simp add: enrich_defs none)
  from enrich_preserves_order[OF h, of net_echo known_440] h run show ?thesis
    by simp
qed

text \<open>
  Claim C7. Take a run of the driver that returns, and a record at position \<open>k\<close> for which
  extraction finds no identifier, or finds one that is not in the secondary index. Then
  the run has no call of the fetcher and no pacing delay at position \<open>k\<close>, and the output
  record at \<open>k\<close> is the input record.
\<close>

theorem enrich_gating:
  assumes run: "enrich_igdb_with_steam_data net can_write igdb_games steam_apps_dict = Inr (out, ev)"
    and k: "k < length igdb_games"
    and gate: "find_steam_app_id (igdb_games ! k) = Inr None
       \<or> (\<exists>x. find_steam_app_id (igdb_games ! k) = Inr (Some x) \<and> steam_apps_dict x = None)"
  shows "(\<forall>x. Fetch k x \<notin> set ev) \<and> Sleep k \<notin> set ev \<and> out ! k = igdb_games ! k"
proof -
  from gate obtain found where
    f: "find_steam_app_id (igdb_games ! k) = Inr found"
       "found = None \<or> found = Some 0 \<or> (\<exists>x. found = Some x \<and> steam_apps_dict x = None)"
    by auto
  from enrich_pass_through[OF run k f] no_event_at_position[of k ev]
  show ?thesis by simp
qed

theorem enrich_gating_witness:
  "enrich_igdb_with_steam_data net_echo True [game_440, game_570] known_440
     = Inr ([AList.update ''steamInfo'' (payload 440) game_440, game_570], [Fetch 0 440, Sleep 0])
   \<and> find_steam_app_id game_570 = Inr (Some 570)
   \<and> known_440 570 = None
   \<and> (\<forall>x. Fetch 1 x \<notin> set [Fetch 0 440, Sleep 0])
   \<and> Sleep 1 \<notin> set [Fetch 0 440, Sleep 0]
   \<and> [AList.update ''steamInfo'' (payload 440) game_440, game_570] ! 1 = game_570"
proof -
  have run: "enrich_igdb_with_steam_data net_echo True [game_440, game_570] known_440
     = Inr ([AList.update ''steamInfo'' (payload 440) game_440, game_570], [Fetch 0 440, Sleep 0])"
    by (simp add: enrich_defs)
  have gate: "find_steam_app_id ([game_440, game_570] ! 1) = Inr None
       \<or> (\<exists>x. find_steam_app_id ([game_440, game_570] ! 1) = Inr (Some x) \<and> known_440 x = None)"
    by (simp add: find_570 known_440_def)
  from enrich_gating[OF run _ gate] run show ?thesis
    by (simp add: find_570 known_440_def)
qed

section \<open>The claims about the retry driver and the documents\<close>

text \<open>
  Claim C1, as stated, lets every identifier of the failure list appear in still-failed
  at most once. The failure list is a list: the enrichment driver appends an identifier
  once per record, so two records with the same Steam identifier whose fetches both fail
  give it twice, and the retry driver, when both fetches fail again, appends it twice to
  still-failed.
\<close>

theorem retry_duplicate_counterexample:
  "enrich_igdb_with_steam_data net_down True [game_440, game_440] known_440
     = Inr ([game_440, game_440],
            [Fetch 0 440, Sleep 0, Fetch 1 440, Sleep 1, WriteFailedIds [440, 440]])
   \<and> retry_failed_fetches net_down [440, 440] [game_440, game_440]
     = Inr \<lparr>games = [game_440, game_440], still_failed = [440, 440], success_count = 0,
            retry_events = [Fetch 0 440, Sleep 0, Fetch 1 440, Sleep 1]\<rparr>
   \<and> count_list [440, 440] (440::int) = 2"
  by (simp add: enrich_defs retry_defs)

text \<open>
  Claim C1, amended: for every failure list, and a dataset on which the lookup pre-pass
  returns the lookup \<open>m\<close>. The retry returns, and it classifies each position of the
  failure list exactly one way: still-failed is the sequence, in order, of the
  identifiers at the positions where the identifier is not in the lookup or its fetch
  fails, so it holds identifiers of the input only, and successes and still-failed
  together count the positions of the input. For the identifier at position \<open>j\<close>: when it
  is not in the lookup it is in still-failed and the run has no fetch and no delay at
  \<open>j\<close>; when it is in the lookup the fetcher is called at \<open>j\<close>; when that fetch fails the
  identifier is in still-failed; when it succeeds the matched record has a
  \<^verbatim>\<open>steamInfo\<close> field, the payload of a successful fetch for this identifier. When no
  identifier is repeated in the failure list, none is repeated in still-failed: an
  identifier that is not in the lookup or whose fetch fails is there exactly once, and
  one whose fetch succeeds with payload \<open>p\<close> is not there and the matched record has
  \<^verbatim>\<open>steamInfo\<close> equal to \<open>p\<close>. (A repeated identifier is in still-failed once for each
  of its positions that is a miss or a failed fetch, also when another of its fetches
  succeeded.)
\<close>

theorem retry_accounting:
  assumes idx: "build_index 0 enriched Map.empty = Inr m"
  shows "\<exists>st. retry_failed_fetches net failed_ids enriched = Inr st
    \<and> still_failed st =
        map ((!) failed_ids)
          (filter (\<lambda>j. m (failed_ids ! j) = None
               \<or> get_steamspy_data_retry (net j (failed_ids ! j)) (failed_ids ! j) = Inr None)
             [0..<length failed_ids])
    \<and> set (still_failed st) \<subseteq> set failed_ids
    \<and> length (still_failed st) + success_count st = length failed_ids
    \<and> (\<forall>j<length failed_ids.
         (m (failed_ids ! j) = None \<longrightarrow>
            failed_ids ! j \<in> set (still_failed st)
            \<and> \<not> list_ex (at_position j) (retry_events st))
         \<and> (\<forall>gi. m (failed_ids ! j) = Some gi \<longrightarrow>
              Fetch j (failed_ids ! j) \<in> set (retry_events st)
              \<and> (get_steamspy_data_retry (net j (failed_ids ! j)) (failed_ids ! j) = Inr None \<longrightarrow>
                   failed_ids ! j \<in> set (still_failed st))
              \<and> (\<forall>p. get_steamspy_data_retry (net j (failed_ids ! j)) (failed_ids ! j) = Inr (Some p) \<longrightarrow>
                   (\<exists>j' p'. j' < length failed_ids \<and> failed_ids ! j' = failed_ids ! j
                      \<and> get_steamspy_data_retry (net j' (failed_ids ! j')) (failed_ids ! j')
                           = Inr (Some p')
                      \<and> map_of (games st ! gi) ''steamInfo'' = Some p'))))
    \<and> (distinct failed_ids \<longrightarrow>
         distinct (still_failed st)
         \<and> (\<forall>j<length failed_ids.
              (m (failed_ids ! j) = None
                 \<or> get_steamspy_data_retry (net j (failed_ids ! j)) (failed_ids ! j) = Inr None \<longrightarrow>
                 count_list (still_failed st) (failed_ids ! j) = 1)
              \<and> (\<forall>gi p. m (failed_ids ! j) = Some gi
                   \<and> get_steamspy_data_retry (net j (failed_ids ! j)) (failed_ids ! j) = Inr (Some p) \<longrightarrow>
                   failed_ids ! j \<notin> set (still_failed st)
                   \<and> map_of (games st ! gi) ''steamInfo'' = Some p)))"
proof -
  let ?st0 = "\<lparr>games = enriched, still_failed = [], success_count = 0, retry_events = []\<rparr>"
  let ?get = "\<lambda>j. get_steamspy_data_retry (net j (failed_ids ! j)) (failed_ids ! j)"
  from retry_returns[OF idx] obtain st where
    r: "retry_failed_fetches net failed_ids enriched = Inr st" by blast
  then have run: "retry_loop net m 0 failed_ids ?st0 = Inr st"
    by (simp add: retry_top[OF idx])
  have seq: "still_failed st =
        map ((!) failed_ids)
          (filter (\<lambda>j. m (failed_ids ! j) = None \<or> ?get j = Inr None) [0..<length failed_ids])"
    using retry_loop_still_failed[OF run] by simp
  from retry_loop_grows[OF run] have
    sub: "set (still_failed st) \<subseteq> set failed_ids" and
    cnt: "length (still_failed st) + success_count st = length failed_ids"
    by auto
  have missfail: "failed_ids ! j \<in> set (still_failed st)"
    if "j < length failed_ids" "m (failed_ids ! j) = None \<or> ?get j = Inr None" for j
  proof -
    from that have "j \<in> set (filter (\<lambda>j. m (failed_ids ! j) = None \<or> ?get j = Inr None)
        [0..<length failed_ids])" by simp
    then show ?thesis unfolding seq by (metis (no_types, lifting) imageI set_map)
  qed
  have pos: "\<forall>j<length failed_ids.
         (m (failed_ids ! j) = None \<longrightarrow>
            failed_ids ! j \<in> set (still_failed st)
            \<and> \<not> list_ex (at_position j) (retry_events st))
         \<and> (\<forall>gi. m (failed_ids ! j) = Some gi \<longrightarrow>
              Fetch j (failed_ids ! j) \<in> set (retry_events st)
              \<and> (?get j = Inr None \<longrightarrow> failed_ids ! j \<in> set (still_failed st))
              \<and> (\<forall>p. ?get j = Inr (Some p) \<longrightarrow>
                   (\<exists>j' p'. j' < length failed_ids \<and> failed_ids ! j' = failed_ids ! j
                      \<and> ?get j' = Inr (Some p')
                      \<and> map_of (games st ! gi) ''steamInfo'' = Some p')))"
  proof (intro allI impI conjI)
    fix j assume j: "j < length failed_ids" and miss: "m (failed_ids ! j) = None"
    have "retry_events ?st0 = []" by simp
    from retry_at_miss[OF run j miss this]
    show "failed_ids ! j \<in> set (still_failed st)"
      and "\<not> list_ex (at_position j) (retry_events st)" by simp_all
  next
    fix j gi assume j: "j < length failed_ids" and hit: "m (failed_ids ! j) = Some gi"
    from retry_at_hit[OF run j hit]
    show "Fetch j (failed_ids ! j) \<in> set (retry_events st)" .
  next
    fix j gi assume j: "j < length failed_ids" and fails: "?get j = Inr None"
    from missfail[OF j] fails show "failed_ids ! j \<in> set (still_failed st)" by simp
  next
    fix j gi p assume j: "j < length failed_ids" and hit: "m (failed_ids ! j) = Some gi"
      and ok: "?get j = Inr (Some p)"
    from retry_at_success_last[OF run j hit ok] obtain j' p' where
      l: "j' < length failed_ids" "m (failed_ids ! j') = Some gi" "?get j' = Inr (Some p')"
         "map_of (games st ! gi) ''steamInfo'' = Some p'" by blast
    from build_index_inj[OF idx l(2) hit] have "failed_ids ! j' = failed_ids ! j" .
    with l(1,3,4) show "\<exists>j' p'. j' < length failed_ids \<and> failed_ids ! j' = failed_ids ! j
        \<and> ?get j' = Inr (Some p') \<and> map_of (games st ! gi) ''steamInfo'' = Some p'"
      by blast
  qed
  have dis: "distinct failed_ids \<longrightarrow>
         distinct (still_failed st)
         \<and> (\<forall>j<length failed_ids.
              (m (failed_ids ! j) = None \<or> ?get j = Inr None \<longrightarrow>
                 count_list (still_failed st) (failed_ids ! j) = 1)
              \<and> (\<forall>gi p. m (failed_ids ! j) = Some gi \<and> ?get j = Inr (Some p) \<longrightarrow>
                   failed_ids ! j \<notin> set (still_failed st)
                   \<and> map_of (games st ! gi) ''steamInfo'' = Some p))"
  proof
    assume d: "distinct failed_ids"
    have dist: "distinct (still_failed st)"
      using retry_loop_distinct[OF run] d by simp
    have "\<forall>j<length failed_ids.
              (m (failed_ids ! j) = None \<or> ?get j = Inr None \<longrightarrow>
                 count_list (still_failed st) (failed_ids ! j) = 1)
              \<and> (\<forall>gi p. m (failed_ids ! j) = Some gi \<and> ?get j = Inr (Some p) \<longrightarrow>
                   failed_ids ! j \<notin> set (still_failed st)
                   \<and> map_of (games st ! gi) ''steamInfo'' = Some p)"
    proof (intro allI impI conjI)
      fix j assume j: "j < length failed_ids"
        and mf: "m (failed_ids ! j) = None \<or> ?get j = Inr None"
      from missfail[OF j mf] dist
      show "count_list (still_failed st) (failed_ids ! j) = 1"
        by (simp add: distinct_count_list_one)
    next
      fix j gi p assume j: "j < length failed_ids"
        and a: "m (failed_ids ! j) = Some gi \<and> ?get j = Inr (Some p)"
      then have hit: "m (failed_ids ! j) = Some gi" and ok: "?get j = Inr (Some p)" by simp_all
      have fresh: "failed_ids ! j \<notin> set (still_failed ?st0)" by simp
      from retry_at_success[OF idx run j d fresh hit ok]
      show "failed_ids ! j \<notin> set (still_failed st)"
        and "map_of (games st ! gi) ''steamInfo'' = Some p" by simp_all
    qed
    with dist show "distinct (still_failed st)
         \<and> (\<forall>j<length failed_ids.
              (m (failed_ids ! j) = None \<or> ?get j = Inr None \<longrightarrow>
                 count_list (still_failed st) (failed_ids ! j) = 1)
              \<and> (\<forall>gi p. m (failed_ids ! j) = Some gi \<and> ?get j = Inr (Some p) \<longrightarrow>
                   failed_ids ! j \<notin> set (still_failed st)
                   \<and> map_of (games st ! gi) ''steamInfo'' = Some p))" by simp
  qed
  from r seq sub cnt pos dis show ?thesis by blast
qed

theorem retry_accounting_witness:
  "build_index 0 [game_440, game_570] Map.empty = Inr [440 \<mapsto> 0, 570 \<mapsto> 1]
   \<and> retry_failed_fetches net_first [440, 570, 440, 999] [game_440, game_570]
     = Inr \<lparr>games = [AList.update ''steamInfo'' (payload 440) game_440, game_570],
            still_failed = [570, 440, 999], success_count = 1,
            retry_events = [Fetch 0 440, Sleep 0, Fetch 1 570, Sleep 1, Fetch 2 440, Sleep 2]\<rparr>
   \<and> length [570, 440, 999 :: int] + 1 = length [440, 570, 440, 999 :: int]
   \<and> \<not> list_ex (at_position 3)
         [Fetch 0 440, Sleep 0, Fetch 1 570, Sleep 1, Fetch 2 440, Sleep 2]
   \<and> distinct [440, 570, 999 :: int]
   \<and> retry_failed_fetches net_first [440, 570, 999] [game_440, game_570]
     = Inr \<lparr>games = [AList.update ''steamInfo'' (payload 440) game_440, game_570],
            still_failed = [570, 999], success_count = 1,
            retry_events = [Fetch 0 440, Sleep 0, Fetch 1 570, Sleep 1]\<rparr>
   \<and> distinct [570, 999 :: int]
   \<and> count_list [570, 999] (570 :: int) = 1
   \<and> 440 \<notin> set [570, 999 :: int]
   \<and> map_of (AList.update ''steamInfo'' (payload 440) game_440) ''steamInfo'' = Some (payload 440)"
proof -
  have idx: "build_index 0 [game_440, game_570] Map.empty = Inr [440 \<mapsto> 0, 570 \<mapsto> 1]"
    by (simp add: retry_defs)
  have rep: "retry_failed_fetches net_first [440, 570, 440, 999] [game_440, game_570]
     = Inr \<lparr>games = [AList.update ''steamInfo'' (payload 440) game_440, game_570],
            still_failed = [570, 440, 999], success_count = 1,
            retry_events = [Fetch 0 440, Sleep 0, Fetch 1 570, Sleep 1, Fetch 2 440, Sleep 2]\<rparr>"
    by (simp add: retry_defs)
  have run: "retry_failed_fetches net_first [440, 570, 999] [game_440, game_570]
     = Inr \<lparr>games = [AList.update ''steamInfo'' (payload 440) game_440, game_570],
            still_failed = [570, 999], success_count = 1,
            retry_events = [Fetch 0 440, Sleep 0, Fetch 1 570, Sleep 1]\<rparr>"
    by (simp add: retry_defs)
  have a: "\<exists>st. retry_failed_fetches net_first [440, 570, 440, 999] [game_440, game_570] = Inr st
      \<and> length (still_failed st) + success_count st = length [440, 570, 440, 999 :: int]"
    using retry_accounting[OF idx, of net_first "[440, 570, 440, 999]"] by blast
  have b: "\<exists>st. retry_failed_fetches net_first [440, 570, 999] [game_440, game_570] = Inr st
      \<and> (distinct [440, 570, 999 :: int] \<longrightarrow> distinct (still_failed st))"
    using retry_accounting[OF idx, of net_first "[440, 570, 999]"] by blast
  from a b idx rep run show ?thesis by (simp add: update_conv')
qed




text \<open>
  Claim C9, as stated, has no Failure Set document written by a run that ends with an
  empty failure list. \<^verbatim>\<open>main\<close> of the retry script calls
  \<^verbatim>\<open>save_still_failed(still_failed)\<close> after every retry pass: when the one failed
  identifier is fetched successfully, the document is written with the empty list.
\<close>

theorem retry_main_writes_empty_failure_document:
  "retry_main net_echo True True (Some [440]) (Some [game_440])
     = Inr [Fetch 0 440, Sleep 0,
            WriteGames [AList.update ''steamInfo'' (payload 440) game_440],
            WriteFailedIds []]"
  by (simp add: retry_defs)

text \<open>
  Claim C9, amended. The enrichment driver writes the Failure Set document only when its
  failure list is not empty, and then writes that list. The retry script, once it has a
  non-empty failure list and a non-empty dataset and the document is writable, writes
  the still-failed list after the pass, whether or not it is empty, and writes no other
  failure list.
\<close>

theorem failure_document_written:
  "(enrich_igdb_with_steam_data net can_write igdb_games steam_apps_dict = Inr (out, ev)
     \<longrightarrow> (\<exists>st. enrich_loop net steam_apps_dict 0 igdb_games enrich_init = Inr st
            \<and> (WriteFailedIds ids \<in> set ev \<longleftrightarrow> ids = failed_steam_ids st \<and> ids \<noteq> [])))
   \<and> (retry_main net writable_games True (Some failed_ids) (Some enriched) = Inr evr
        \<and> failed_ids \<noteq> [] \<and> enriched \<noteq> []
     \<longrightarrow> (\<exists>st. retry_failed_fetches net failed_ids enriched = Inr st
            \<and> (WriteFailedIds ids \<in> set evr \<longleftrightarrow> ids = still_failed st)))"
proof (intro conjI impI)
  assume run: "enrich_igdb_with_steam_data net can_write igdb_games steam_apps_dict = Inr (out, ev)"
  from enrich_top[OF run] obtain st' where
    l: "enrich_loop net steam_apps_dict 0 igdb_games enrich_init = Inr st'" and
    ev: "ev = events st' @ (if failed_steam_ids st' = [] then []
                            else [WriteFailedIds (failed_steam_ids st')])" by blast
  from enrich_loop_grows[OF l] have
    "list_all (\<lambda>e. \<exists>k. at_position k e) (events st')"
    by (auto simp: enrich_init_def list_all_iff)
  then have "WriteFailedIds ids \<notin> set (events st')"
    by (auto simp: list_all_iff)
  with ev have "WriteFailedIds ids \<in> set ev \<longleftrightarrow> ids = failed_steam_ids st' \<and> ids \<noteq> []"
    by auto
  with l show "\<exists>st. enrich_loop net steam_apps_dict 0 igdb_games enrich_init = Inr st
            \<and> (WriteFailedIds ids \<in> set ev \<longleftrightarrow> ids = failed_steam_ids st \<and> ids \<noteq> [])"
    by blast
next
  assume a: "retry_main net writable_games True (Some failed_ids) (Some enriched) = Inr evr
        \<and> failed_ids \<noteq> [] \<and> enriched \<noteq> []"
  then obtain st where
    r: "retry_failed_fetches net failed_ids enriched = Inr st" and
    evr: "evr = retry_events st @ (if writable_games then [WriteGames (games st)] else [])
            @ [WriteFailedIds (still_failed st)]"
    by (auto simp: retry_main_def split: sum.splits)
  from r obtain m' where
    l: "retry_loop net m' 0 failed_ids
          \<lparr>games = enriched, still_failed = [], success_count = 0, retry_events = []\<rparr> = Inr st"
    by (auto simp: retry_failed_fetches_def split: sum.splits)
  from retry_loop_grows[OF l] have
    "list_all (\<lambda>e. \<exists>k. at_position k e) (retry_events st)"
    by (auto simp: list_all_iff)
  then have "WriteFailedIds ids \<notin> set (retry_events st)"
    by (auto simp: list_all_iff)
  with evr have "WriteFailedIds ids \<in> set evr \<longleftrightarrow> ids = still_failed st"
    by auto
  with r show "\<exists>st. retry_failed_fetches net failed_ids enriched = Inr st
            \<and> (WriteFailedIds ids \<in> set evr \<longleftrightarrow> ids = still_failed st)"
    by blast
qed

theorem failure_document_written_witness:
  "enrich_igdb_with_steam_data net_echo True [game_440] known_440
     = Inr ([AList.update ''steamInfo'' (payload 440) game_440], [Fetch 0 440, Sleep 0])
   \<and> WriteFailedIds [] \<notin> set [Fetch 0 440, Sleep 0]
   \<and> retry_main net_down True True (Some [440]) (Some [game_440])
     = Inr [Fetch 0 440, Sleep 0, WriteGames [game_440], WriteFailedIds [440]]
   \<and> [440] \<noteq> ([] :: int list) \<and> [game_440] \<noteq> []
   \<and> retry_failed_fetches net_down [440] [game_440]
     = Inr \<lparr>games = [game_440], still_failed = [440], success_count = 0,
            retry_events = [Fetch 0 440, Sleep 0]\<rparr>
   \<and> WriteFailedIds [440]
        \<in> set [Fetch 0 440, Sleep 0, WriteGames [game_440], WriteFailedIds [440]]"
proof -
  have e: "enrich_igdb_with_steam_data net_echo True [game_440] known_440
     = Inr ([AList.update ''steamInfo'' (payload 440) game_440], [Fetch 0 440, Sleep 0])"
    by (simp add: enrich_defs)
  have r: "retry_main net_down True True (Some [440]) (Some [game_440])
     = Inr [Fetch 0 440, Sleep 0, WriteGames [game_440], WriteFailedIds [440]]"
    by (simp add: retry_defs)
  have f: "retry_failed_fetches net_down [440] [game_440]
     = Inr \<lparr>games = [game_440], still_failed = [440], success_count = 0,
            retry_events = [Fetch 0 440, Sleep 0]\<rparr>"
    by (simp add: retry_defs)
  from failure_document_written[where net = net_echo and can_write = True
      and igdb_games = "[game_440]" and steam_apps_dict = known_440
      and out = "[AList.update ''steamInfo'' (payload 440) game_440]"
      and ev = "[Fetch 0 440, Sleep 0]" and ids = "[]"] e r f
  show ?thesis by simp
qed

text \<open>
  Claim C10. When the first entry of a record whose source name is \<^verbatim>\<open>'Steam'\<close> has no
  \<^verbatim>\<open>uid\<close> field, both versions of the extraction return the identifier 0, whatever
  entries follow. The enrichment driver never calls the fetcher for 0 and passes a record
  with identifier 0 through unchanged, also when 0 is in the secondary index; the retry
  lookup never holds 0, so the retry never calls the fetcher for 0.
\<close>

theorem identifier_zero:
  "(map_of igdb_game ''external_games'' = Some (JArr (pre @ JObj e # post))
      \<and> map_of e ''uid'' = None
      \<and> list_all (other_source source_name) pre
      \<and> source_name (JObj e) = Inr (JStr ''Steam'')
    \<longrightarrow> find_steam_app_id igdb_game = Inr (Some 0))
   \<and> (map_of igdb_game ''external_games'' = Some (JArr (pre @ JObj e # post))
      \<and> map_of e ''uid'' = None
      \<and> list_all (other_source source_name_retry) pre
      \<and> source_name_retry (JObj e) = Inr (JStr ''Steam'')
    \<longrightarrow> find_steam_app_id_retry igdb_game = Inr (Some 0))
   \<and> (enrich_igdb_with_steam_data net can_write igdb_games steam_apps_dict = Inr (out, ev)
    \<longrightarrow> Fetch j 0 \<notin> set ev
       \<and> (k < length igdb_games \<and> find_steam_app_id (igdb_games ! k) = Inr (Some 0)
          \<longrightarrow> \<not> list_ex (at_position k) ev \<and> out ! k = igdb_games ! k))
   \<and> (build_index 0 enriched Map.empty = Inr m \<longrightarrow> m 0 = None)
   \<and> (retry_failed_fetches net failed_ids enriched = Inr st
    \<longrightarrow> Fetch j 0 \<notin> set (retry_events st))"
proof (intro conjI impI)
  assume a: "map_of igdb_game ''external_games'' = Some (JArr (pre @ JObj e # post))
      \<and> map_of e ''uid'' = None
      \<and> list_all (other_source source_name) pre
      \<and> source_name (JObj e) = Inr (JStr ''Steam'')"
  then show "find_steam_app_id igdb_game = Inr (Some 0)"
    using scan_missing_uid[of source_name pre e post]
    by (simp add: find_steam_app_id_def dict_get_def)
next
  assume a: "map_of igdb_game ''external_games'' = Some (JArr (pre @ JObj e # post))
      \<and> map_of e ''uid'' = None
      \<and> list_all (other_source source_name_retry) pre
      \<and> source_name_retry (JObj e) = Inr (JStr ''Steam'')"
  then show "find_steam_app_id_retry igdb_game = Inr (Some 0)"
    using scan_missing_uid[of source_name_retry pre e post]
    by (simp add: find_steam_app_id_retry_def dict_get_def)
next
  assume run: "enrich_igdb_with_steam_data net can_write igdb_games steam_apps_dict = Inr (out, ev)"
  from enrich_top[OF run] obtain st' where
    l: "enrich_loop net steam_apps_dict 0 igdb_games enrich_init = Inr st'" and
    ev: "ev = events st' @ (if failed_steam_ids st' = [] then []
                            else [WriteFailedIds (failed_steam_ids st')])" by blast
  have "Fetch j 0 \<notin> set (events enrich_init)" by (simp add: enrich_init_def)
  from enrich_loop_no_fetch_zero[OF l this] ev show "Fetch j 0 \<notin> set ev" by simp
next
  assume run: "enrich_igdb_with_steam_data net can_write igdb_games steam_apps_dict = Inr (out, ev)"
    and z: "k < length igdb_games \<and> find_steam_app_id (igdb_games ! k) = Inr (Some 0)"
  from enrich_pass_through[OF run, of k "Some 0"] z
  show "\<not> list_ex (at_position k) ev" and "out ! k = igdb_games ! k" by simp_all
next
  assume "build_index 0 enriched Map.empty = Inr m"
  then show "m 0 = None" by (rule build_index_zero)
next
  assume run: "retry_failed_fetches net failed_ids enriched = Inr st"
  then obtain m' where
    idx: "build_index 0 enriched Map.empty = Inr m'" and
    l: "retry_loop net m' 0 failed_ids
          \<lparr>games = enriched, still_failed = [], success_count = 0, retry_events = []\<rparr> = Inr st"
    by (auto simp: retry_failed_fetches_def split: sum.splits)
  from retry_loop_no_fetch_zero[OF l build_index_zero[OF idx]]
  show "Fetch j 0 \<notin> set (retry_events st)" by simp
qed

theorem identifier_zero_witness:
  "map_of game_nouid ''external_games''
     = Some (JArr ([entry ''GOG'' (JStr ''7'')] @ source_only # [entry ''Steam'' (JStr ''440'')]))
   \<and> find_steam_app_id game_nouid = Inr (Some 0)
   \<and> find_steam_app_id_retry game_nouid = Inr (Some 0)
   \<and> known_zero 0 \<noteq> None
   \<and> enrich_igdb_with_steam_data net_echo True [game_nouid] known_zero = Inr ([game_nouid], [])
   \<and> build_index 0 [game_nouid] Map.empty = Inr Map.empty
   \<and> retry_failed_fetches net_echo [0] [game_nouid]
     = Inr \<lparr>games = [game_nouid], still_failed = [0], success_count = 0, retry_events = []\<rparr>"
proof -
  have a: "map_of game_nouid ''external_games''
     = Some (JArr ([entry ''GOG'' (JStr ''7'')] @ JObj [(''external_game_source'', JObj [(''name'', JStr ''Steam'')])] # [entry ''Steam'' (JStr ''440'')]))"
    by (simp add: game_nouid_def game_def source_only_def)
  have b: "map_of [(''external_game_source'', JObj [(''name'', JStr ''Steam'')])] ''uid'' = None"
    by simp
  have c: "list_all (other_source source_name) [entry ''GOG'' (JStr ''7'')]"
    by (simp add: other_source_def find_defs)
  have d: "source_name (JObj [(''external_game_source'', JObj [(''name'', JStr ''Steam'')])])
     = Inr (JStr ''Steam'')"
    by (simp add: find_defs)
  have e: "enrich_igdb_with_steam_data net_echo True [game_nouid] known_zero = Inr ([game_nouid], [])"
    by (simp add: enrich_igdb_with_steam_data_def enrich_init_def enrich_game_def find_nouid)
  have f: "build_index 0 [game_nouid] Map.empty = Inr Map.empty"
    by (simp add: retry_defs)
  have g: "retry_failed_fetches net_echo [0] [game_nouid]
     = Inr \<lparr>games = [game_nouid], still_failed = [0], success_count = 0, retry_events = []\<rparr>"
    by (simp add: retry_defs)
  from identifier_zero[where igdb_game = game_nouid and pre = "[entry ''GOG'' (JStr ''7'')]"
      and e = "[(''external_game_source'', JObj [(''name'', JStr ''Steam'')])]"
      and post = "[entry ''Steam'' (JStr ''440'')]"] a b c d
  have "find_steam_app_id game_nouid = Inr (Some 0)" by simp
  with a e f g show ?thesis
    by (simp add: find_retry_nouid known_zero_def source_only_def)
qed

end
